theory Spec2Isabelle
  imports Complex_Main
begin

section \<open>Data model of the documented SDK\<close>

text \<open>
  The call-resilience examples of the error-handling and advanced-queries guides
  (\<^verbatim>\<open>RetryableVantigeClient\<close>, \<^verbatim>\<open>CircuitBreakerClient\<close>,
  \<^verbatim>\<open>MonitoredVantigeClient\<close>, \<^verbatim>\<open>CachedVantigeClient\<close>) are embedded as
  state-passing functions. JavaScript numbers that the code itself counts up from zero
  (attempts, hits, requests, failures) are \<open>nat\<close>, timestamps in milliseconds are
  \<open>int\<close>, and delays are \<open>real\<close> (the idealisation of IEEE doubles: no rounding,
  no NaN, no Infinity).
\<close>

record QueryParams =
  corpusId :: string
  query :: string
  limit :: "int option"
  generateAnswer :: "bool option"

datatype QueryResponse =
  QueryResponse (results: "string list") (answer: "string option") (queryId: string)

text \<open>
  A thrown value is either a \<^verbatim>\<open>VantigeSDKError\<close> (numeric code, message and the
  \<^verbatim>\<open>details.retryAfter\<close> hint in seconds when present) or any other
  \<^verbatim>\<open>Error\<close>, of which only the \<^verbatim>\<open>code\<close> property (a string such as
  \<^verbatim>\<open>'ECONNRESET'\<close>, when it has one) and the message are read.
\<close>

datatype error =
    VantigeSDKError int string "real option"
  | Error "string option" string

type_synonym outcome = "error + QueryResponse"

subsection \<open>The environment: clock, timer and random numbers\<close>

text \<open>
  \<^verbatim>\<open>Date.now()\<close> reads \<open>now\<close>; \<^verbatim>\<open>Math.random()\<close> returns the next
  number of the sequence \<open>randoms\<close>; \<^verbatim>\<open>setTimeout\<close> lets the requested time
  pass (a non-positive delay lets none pass).
\<close>

record world =
  now :: int
  randoms :: "nat \<Rightarrow> real"
  drawn :: nat

definition Math_random :: "world \<Rightarrow> real \<times> world" where
  "Math_random w = (randoms w (drawn w), w\<lparr>drawn := drawn w + 1\<rparr>)"

definition sleep :: "real \<Rightarrow> world \<Rightarrow> world" where
  "sleep ms w = w\<lparr>now := now w + max 0 \<lceil>ms\<rceil>\<rparr>"

definition tick :: "int \<Rightarrow> world \<Rightarrow> world" where
  "tick dt w = w\<lparr>now := now w + dt\<rparr>"

text \<open>
  Every client implements \<^verbatim>\<open>query(params): Promise<QueryResponse>\<close>. A client whose
  private state has type \<open>'s\<close> is a function from the parameters, its state and the
  world to the outcome (\<open>Inl\<close> a thrown error, \<open>Inr\<close> the response), the new state and
  the new world. A wrapper's state is a pair: its own fields and the state of the client
  it wraps.
\<close>

type_synonym 's client =
  "QueryParams \<Rightarrow> 's \<Rightarrow> world \<Rightarrow> outcome \<times> 's \<times> world"

text \<open>
  A caller that awaits each call before starting the next one: before every call the
  clock advances by the given number of milliseconds.
\<close>

fun run :: "'s client \<Rightarrow> (int \<times> QueryParams) list \<Rightarrow> 's \<Rightarrow> world \<Rightarrow> outcome list \<times> 's \<times> world" where
  "run client [] s w = ([], s, w)"
| "run client ((dt, params) # rest) s w =
     (case client params s (tick dt w) of
        (r, s', w') \<Rightarrow>
          (case run client rest s' w' of
             (rs, s'', w'') \<Rightarrow> (r # rs, s'', w'')))"

text \<open>
  A probe around a client that records every outcome the wrapped client produces, in
  order. It is not part of the program: it makes "how often was the inner operation
  invoked, and with what result" a value of the model.
\<close>

definition recorded :: "'s client \<Rightarrow> (outcome list \<times> 's) client" where
  "recorded client params ls w =
     (case client params (snd ls) w of
        (r, s', w') \<Rightarrow> (r, (fst ls @ [r], s'), w'))"

section \<open>Retry with exponential backoff\<close>

text \<open>
  An option of \<^verbatim>\<open>RetryOptions\<close> is absent (\<open>None\<close>) or an own property of the
  object. \<^verbatim>\<open>maxRetries\<close> is only ever compared with the attempt counter, so its
  value is a number (any real: negative, fractional) or something that is not a number
  (\<^verbatim>\<open>undefined\<close>, \<^verbatim>\<open>NaN\<close>), written \<open>None\<close>, for which every
  comparison is false. An infinite \<^verbatim>\<open>maxRetries\<close>, with which the loop need not end,
  is not represented; the other options are represented where they hold numbers.
\<close>

record RetryOptions =
  opt_maxRetries :: "real option option"
  opt_initialDelay :: "real option"
  opt_maxDelay :: "real option"
  opt_backoffMultiplier :: "real option"
  opt_retryableErrors :: "int list option"

record RequiredRetryOptions =
  maxRetries :: "real option"
  initialDelay :: real
  maxDelay :: real
  backoffMultiplier :: real
  retryableErrors :: "int list"

definition builtinRetryOptions :: RequiredRetryOptions where
  "builtinRetryOptions =
     \<lparr>maxRetries = Some 3, initialDelay = 1000, maxDelay = 30000, backoffMultiplier = 2,
      retryableErrors = [429, 500, 502, 503, 504]\<rparr>"

text \<open>
  The object spread \<^verbatim>\<open>{ ...defaults, ...options }\<close>: an own property of
  \<open>options\<close> overrides the default, also when it holds \<^verbatim>\<open>undefined\<close>.
\<close>

definition spread :: "RequiredRetryOptions \<Rightarrow> RetryOptions \<Rightarrow> RequiredRetryOptions" where
  "spread defaults options =
     \<lparr>maxRetries = (case opt_maxRetries options of None \<Rightarrow> maxRetries defaults | Some v \<Rightarrow> v),
      initialDelay = (case opt_initialDelay options of None \<Rightarrow> initialDelay defaults | Some v \<Rightarrow> v),
      maxDelay = (case opt_maxDelay options of None \<Rightarrow> maxDelay defaults | Some v \<Rightarrow> v),
      backoffMultiplier =
        (case opt_backoffMultiplier options of None \<Rightarrow> backoffMultiplier defaults | Some v \<Rightarrow> v),
      retryableErrors =
        (case opt_retryableErrors options of None \<Rightarrow> retryableErrors defaults | Some v \<Rightarrow> v)\<rparr>"

definition noOptions :: RetryOptions where
  "noOptions =
     \<lparr>opt_maxRetries = None, opt_initialDelay = None, opt_maxDelay = None,
      opt_backoffMultiplier = None, opt_retryableErrors = None\<rparr>"

text \<open>The constructor: \<^verbatim>\<open>this.defaultOptions = { ...this.defaultOptions, ...options }\<close>.\<close>

definition new_RetryableVantigeClient :: "RetryOptions \<Rightarrow> RequiredRetryOptions" where
  "new_RetryableVantigeClient options = spread builtinRetryOptions options"

fun isRetryable :: "error \<Rightarrow> int list \<Rightarrow> bool" where
  "isRetryable (Error code message) codes =
     (code = Some ''ECONNRESET'' \<or> code = Some ''ETIMEDOUT'' \<or> code = Some ''ENOTFOUND'')"
| "isRetryable (VantigeSDKError code message retryAfter) codes = (code \<in> set codes)"

definition exponentialDelay :: "nat \<Rightarrow> RequiredRetryOptions \<Rightarrow> real" where
  "exponentialDelay attempt options =
     min (initialDelay options * backoffMultiplier options ^ attempt) (maxDelay options)"

text \<open>
  The condition \<^verbatim>\<open>error instanceof VantigeSDKError && error.code === 429 &&
  error.details?.retryAfter\<close>: a hint that is missing or zero is falsy. The result is
  the hint when the condition holds.
\<close>

fun serverRetryAfter :: "error \<Rightarrow> real option" where
  "serverRetryAfter (VantigeSDKError code message (Some retryAfter)) =
     (if code = 429 \<and> retryAfter \<noteq> 0 then Some retryAfter else None)"
| "serverRetryAfter (VantigeSDKError code message None) = None"
| "serverRetryAfter (Error code message) = None"

definition calculateDelay :: "nat \<Rightarrow> error \<Rightarrow> RequiredRetryOptions \<Rightarrow> world \<Rightarrow> real \<times> world" where
  "calculateDelay attempt error options w =
     (case serverRetryAfter error of
        Some retryAfter \<Rightarrow> (retryAfter * 1000, w)
      | None \<Rightarrow>
          (case Math_random w of
             (r, w') \<Rightarrow>
               (let jitter = r * 0.3 * exponentialDelay attempt options
                in (of_int \<lfloor>exponentialDelay attempt options + jitter\<rfloor>, w'))))"

text \<open>\<^verbatim>\<open>throw lastError || new Error('All retries failed')\<close>\<close>

definition throwLast :: "error option \<Rightarrow> error" where
  "throwLast lastError =
     (case lastError of Some e \<Rightarrow> e | None \<Rightarrow> Error None ''All retries failed'')"

text \<open>
  The two tests on the attempt counter: \<^verbatim>\<open>attempt <= opts.maxRetries\<close> and
  \<^verbatim>\<open>attempt === opts.maxRetries\<close>.
\<close>

definition attemptAllowed :: "nat \<Rightarrow> real option \<Rightarrow> bool" where
  "attemptAllowed attempt bound =
     (case bound of None \<Rightarrow> False | Some m \<Rightarrow> real attempt \<le> m)"

definition lastAttempt :: "nat \<Rightarrow> real option \<Rightarrow> bool" where
  "lastAttempt attempt bound = (bound = Some (real attempt))"

text \<open>
  The loop \<^verbatim>\<open>for (let attempt = 0; attempt <= opts.maxRetries; attempt++)\<close> from the
  current value of \<open>attempt\<close>, with the current \<open>lastError\<close>. When the loop is not
  entered at all, nothing has been thrown and \<open>lastError\<close> is still
  \<^verbatim>\<open>undefined\<close>.
\<close>

function query_loop ::
  "RequiredRetryOptions \<Rightarrow> 's client \<Rightarrow> QueryParams \<Rightarrow> nat \<Rightarrow> error option \<Rightarrow> 's \<Rightarrow> world
     \<Rightarrow> outcome \<times> 's \<times> world" where
  "query_loop opts client params attempt lastError s w =
     (if attemptAllowed attempt (maxRetries opts) then
        (case client params s w of
           (Inr response, s', w') \<Rightarrow> (Inr response, s', w')
         | (Inl error, s', w') \<Rightarrow>
             if \<not> isRetryable error (retryableErrors opts) then (Inl error, s', w')
             else if lastAttempt attempt (maxRetries opts) then
               (Inl (throwLast (Some error)), s', w')
             else
               (case calculateDelay attempt error opts w' of
                  (delay, w'') \<Rightarrow>
                    query_loop opts client params (attempt + 1) (Some error) s' (sleep delay w'')))
      else (Inl (throwLast lastError), s, w))"
  by pat_completeness auto
termination
  by (relation "measure (\<lambda>(opts, client, params, attempt, lastError, s, w).
        (case maxRetries opts of None \<Rightarrow> 0 | Some m \<Rightarrow> nat \<lfloor>m\<rfloor> + 1 - attempt))")
    (auto simp: attemptAllowed_def split: option.splits dest!: le_nat_floor)

declare query_loop.simps [simp del]

definition Retryable_query ::
  "RequiredRetryOptions \<Rightarrow> 's client \<Rightarrow> RetryOptions \<Rightarrow> 's client" where
  "Retryable_query defaultOptions client options params s w =
     query_loop (spread defaultOptions options) client params 0 None s w"

section \<open>Circuit breaker\<close>

datatype CircuitState = CLOSED | OPEN | HALF_OPEN

record CircuitBreakerOptions =
  opt_failureThreshold :: "nat option"
  opt_resetTimeout :: "int option"
  opt_monitoringPeriod :: "int option"

record RequiredCircuitBreakerOptions =
  failureThreshold :: nat
  resetTimeout :: int
  monitoringPeriod :: int

record CircuitBreakerClient =
  state :: CircuitState
  failures :: nat
  lastFailureTime :: "int option"
  successCount :: nat
  options :: RequiredCircuitBreakerOptions

text \<open>The field initialisers and the constructor's spread over the defaults.\<close>

definition new_CircuitBreakerClient :: "CircuitBreakerOptions \<Rightarrow> CircuitBreakerClient" where
  "new_CircuitBreakerClient opts =
     \<lparr>state = CLOSED, failures = 0, lastFailureTime = None, successCount = 0,
      options =
        \<lparr>failureThreshold = (case opt_failureThreshold opts of None \<Rightarrow> 5 | Some v \<Rightarrow> v),
         resetTimeout = (case opt_resetTimeout opts of None \<Rightarrow> 60000 | Some v \<Rightarrow> v),
         monitoringPeriod = (case opt_monitoringPeriod opts of None \<Rightarrow> 60000 | Some v \<Rightarrow> v)\<rparr>\<rparr>"

definition noBreakerOptions :: CircuitBreakerOptions where
  "noBreakerOptions =
     \<lparr>opt_failureThreshold = None, opt_resetTimeout = None, opt_monitoringPeriod = None\<rparr>"

definition shouldAttemptReset :: "CircuitBreakerClient \<Rightarrow> world \<Rightarrow> bool" where
  "shouldAttemptReset this w =
     (case lastFailureTime this of
        None \<Rightarrow> False
      | Some t \<Rightarrow> now w - t \<ge> resetTimeout (options this))"

definition onSuccess :: "CircuitBreakerClient \<Rightarrow> CircuitBreakerClient" where
  "onSuccess this =
     (let this1 = this\<lparr>failures := 0\<rparr> in
      if state this1 = HALF_OPEN then
        (let this2 = this1\<lparr>successCount := successCount this1 + 1\<rparr> in
         if successCount this2 \<ge> 3 then this2\<lparr>state := CLOSED, successCount := 0\<rparr>
         else this2)
      else this1)"

definition onFailure :: "error \<Rightarrow> CircuitBreakerClient \<Rightarrow> world \<Rightarrow> CircuitBreakerClient" where
  "onFailure error this w =
     (let this1 = this\<lparr>lastFailureTime := Some (now w), successCount := 0\<rparr> in
      if state this1 = HALF_OPEN then this1\<lparr>state := OPEN\<rparr>
      else
        (let this2 = this1\<lparr>failures := failures this1 + 1\<rparr> in
         if failures this2 \<ge> failureThreshold (options this2) then this2\<lparr>state := OPEN\<rparr>
         else this2))"

definition circuitOpenError :: error where
  "circuitOpenError = Error None ''Circuit breaker is OPEN - service unavailable''"

fun CircuitBreaker_query :: "'s client \<Rightarrow> (CircuitBreakerClient \<times> 's) client" where
  "CircuitBreaker_query client params (this, s) w =
     (if state this = OPEN \<and> \<not> shouldAttemptReset this w then
        (Inl circuitOpenError, (this, s), w)
      else
        (let this1 = (if state this = OPEN then this\<lparr>state := HALF_OPEN\<rparr> else this) in
         case client params s w of
           (Inr resp, s', w') \<Rightarrow> (Inr resp, (onSuccess this1, s'), w')
         | (Inl error, s', w') \<Rightarrow> (Inl error, (onFailure error this1 w', s'), w')))"

definition getState :: "CircuitBreakerClient \<Rightarrow> CircuitState \<times> nat" where
  "getState this = (state this, failures this)"

section \<open>Monitoring\<close>

text \<open>
  A JavaScript \<^verbatim>\<open>Map\<close> iterates in insertion order: it is a list of pairs with
  distinct keys. \<^verbatim>\<open>set\<close> on a key that is present replaces the value and keeps the
  position; on a new key it appends.
\<close>

definition Map_get :: "('k \<times> 'v) list \<Rightarrow> 'k \<Rightarrow> 'v option" where
  "Map_get m key = map_of m key"

definition Map_set :: "('k \<times> 'v) list \<Rightarrow> 'k \<Rightarrow> 'v \<Rightarrow> ('k \<times> 'v) list" where
  "Map_set m key v =
     (if key \<in> fst ` set m then map (\<lambda>(k, x). if k = key then (k, v) else (k, x)) m
      else m @ [(key, v)])"

definition Map_delete :: "('k \<times> 'v) list \<Rightarrow> 'k \<Rightarrow> ('k \<times> 'v) list" where
  "Map_delete m key = filter (\<lambda>(k, x). k \<noteq> key) m"

record ErrorMetrics =
  totalErrors :: nat
  errorsByCode :: "(int \<times> nat) list"
  errorRate :: real
  lastError :: "(int \<times> string \<times> int) option"

record MonitoredVantigeClient =
  metrics :: ErrorMetrics
  requests :: nat
  errorCallbacks :: "(error \<Rightarrow> world \<Rightarrow> world) list"
  windowSize :: int

definition new_MonitoredVantigeClient :: "int \<Rightarrow> MonitoredVantigeClient" where
  "new_MonitoredVantigeClient window =
     \<lparr>metrics = \<lparr>totalErrors = 0, errorsByCode = [], errorRate = 0, lastError = None\<rparr>,
      requests = 0, errorCallbacks = [], windowSize = window\<rparr>"

definition updateErrorRate :: "MonitoredVantigeClient \<Rightarrow> MonitoredVantigeClient" where
  "updateErrorRate this =
     (let recentRequests = min (int (requests this)) (windowSize this) in
      if recentRequests > 0 then
        this\<lparr>metrics := (metrics this)
          \<lparr>errorRate := real (totalErrors (metrics this)) / real_of_int recentRequests\<rparr>\<rparr>
      else this)"

text \<open>\<^verbatim>\<open>recordError\<close> receives a \<^verbatim>\<open>VantigeSDKError\<close>: its code and message.\<close>

definition recordError :: "int \<Rightarrow> string \<Rightarrow> MonitoredVantigeClient \<Rightarrow> world \<Rightarrow> MonitoredVantigeClient" where
  "recordError code message this w =
     (let m1 = (metrics this)\<lparr>totalErrors := totalErrors (metrics this) + 1\<rparr>;
          count = (case Map_get (errorsByCode m1) code of None \<Rightarrow> 0 | Some c \<Rightarrow> c);
          m2 = m1\<lparr>errorsByCode := Map_set (errorsByCode m1) code (count + 1)\<rparr>;
          m3 = m2\<lparr>lastError := Some (code, message, now w)\<rparr>
      in updateErrorRate (this\<lparr>metrics := m3\<rparr>))"

text \<open>
  A callback is run for its effect on the world; an exception it throws is caught and
  logged, so that what remains of a callback is the effect it had.
\<close>

definition notifyErrorCallbacks :: "error \<Rightarrow> MonitoredVantigeClient \<Rightarrow> world \<Rightarrow> world" where
  "notifyErrorCallbacks error this w = fold (\<lambda>callback. callback error) (errorCallbacks this) w"

definition onError :: "(error \<Rightarrow> world \<Rightarrow> world) \<Rightarrow> MonitoredVantigeClient \<Rightarrow> MonitoredVantigeClient" where
  "onError callback this = this\<lparr>errorCallbacks := errorCallbacks this @ [callback]\<rparr>"

fun Monitored_query :: "'s client \<Rightarrow> (MonitoredVantigeClient \<times> 's) client" where
  "Monitored_query client params (this, s) w =
     (let this1 = this\<lparr>requests := requests this + 1\<rparr> in
      case client params s w of
        (Inr resp, s', w') \<Rightarrow> (Inr resp, (updateErrorRate this1, s'), w')
      | (Inl (VantigeSDKError code message details), s', w') \<Rightarrow>
          (let this2 = recordError code message this1 w' in
           (Inl (VantigeSDKError code message details), (this2, s'),
            notifyErrorCallbacks (VantigeSDKError code message details) this2 w'))
      | (Inl (Error code message), s', w') \<Rightarrow> (Inl (Error code message), (this1, s'), w'))"


datatype health = healthy | degraded | unhealthy

definition getHealthStatus :: "MonitoredVantigeClient \<Rightarrow> health" where
  "getHealthStatus this =
     (if errorRate (metrics this) < 0.01 then healthy
      else if errorRate (metrics this) < 0.1 then degraded
      else unhealthy)"

section \<open>Cache\<close>

record CacheEntry =
  response :: QueryResponse
  timestamp :: int
  hits :: nat

type_synonym CachedVantigeClient = "(string \<times> CacheEntry) list"

definition cacheTimeout :: int where
  "cacheTimeout = 5 * 60 * 1000"

definition maxCacheSize :: nat where
  "maxCacheSize = 100"

definition new_CachedVantigeClient :: CachedVantigeClient where
  "new_CachedVantigeClient = []"

text \<open>
  \<^verbatim>\<open>toLowerCase\<close> and \<^verbatim>\<open>trim\<close> on ASCII text. \<^verbatim>\<open>JSON.stringify\<close> is a
  parameter of the model: the text it produces for the object of the four normalised
  fields.
\<close>

definition toLowerCase :: "string \<Rightarrow> string" where
  "toLowerCase str =
     map (\<lambda>c. case map_of (zip ''ABCDEFGHIJKLMNOPQRSTUVWXYZ'' ''abcdefghijklmnopqrstuvwxyz'') c of
                 Some l \<Rightarrow> l
               | None \<Rightarrow> c) str"

definition isSpace :: "char \<Rightarrow> bool" where
  "isSpace c = (c \<in> set [CHR '' '', CHR 0x09, CHR 0x0A, CHR 0x0B, CHR 0x0C, CHR 0x0D])"

definition trim :: "string \<Rightarrow> string" where
  "trim str = rev (dropWhile isSpace (rev (dropWhile isSpace str)))"

definition getCacheKey :: "(QueryParams \<Rightarrow> string) \<Rightarrow> QueryParams \<Rightarrow> string" where
  "getCacheKey JSON_stringify params =
     JSON_stringify
       \<lparr>corpusId = corpusId params, query = trim (toLowerCase (query params)),
        limit = limit params, generateAnswer = generateAnswer params\<rparr>"

definition isCacheValid :: "CacheEntry \<Rightarrow> world \<Rightarrow> bool" where
  "isCacheValid entry w = (now w - timestamp entry < cacheTimeout)"

definition score :: "CacheEntry \<Rightarrow> world \<Rightarrow> int" where
  "score entry w = int (hits entry) * 10000 + (now w - timestamp entry)"

text \<open>
  The \<^verbatim>\<open>forEach\<close> of \<^verbatim>\<open>findLRUKey\<close> over the pair \<open>(lruKey, minHits)\<close>, which starts
  as \<^verbatim>\<open>(undefined, Infinity)\<close>: \<open>None\<close> in the second place is \<^verbatim>\<open>Infinity\<close>.
\<close>

definition visit :: "world \<Rightarrow> string \<times> CacheEntry \<Rightarrow> string option \<times> int option \<Rightarrow> string option \<times> int option" where
  "visit w ke acc =
     (if (case snd acc of None \<Rightarrow> True | Some minHits \<Rightarrow> score (snd ke) w < minHits)
      then (Some (fst ke), Some (score (snd ke) w))
      else acc)"

definition findLRUKey :: "CachedVantigeClient \<Rightarrow> world \<Rightarrow> string option" where
  "findLRUKey this w = fst (fold (visit w) this (None, None))"

text \<open>\<^verbatim>\<open>if (lruKey) this.cache.delete(lruKey)\<close>: the empty string is falsy.\<close>

definition updateCache :: "string \<Rightarrow> QueryResponse \<Rightarrow> CachedVantigeClient \<Rightarrow> world \<Rightarrow> CachedVantigeClient" where
  "updateCache key resp this w =
     (let this1 =
        (if length this \<ge> maxCacheSize then
           (case findLRUKey this w of
              None \<Rightarrow> this
            | Some lruKey \<Rightarrow> if lruKey \<noteq> [] then Map_delete this lruKey else this)
         else this)
      in Map_set this1 key \<lparr>response = resp, timestamp = now w, hits = 0\<rparr>)"

fun Cached_query :: "(QueryParams \<Rightarrow> string) \<Rightarrow> 's client \<Rightarrow> (CachedVantigeClient \<times> 's) client" where
  "Cached_query JSON_stringify client params (this, s) w =
     (let cacheKey = getCacheKey JSON_stringify params in
      case Map_get this cacheKey of
        Some cached \<Rightarrow>
          if isCacheValid cached w then
            (Inr (response cached), (Map_set this cacheKey (cached\<lparr>hits := hits cached + 1\<rparr>), s), w)
          else
            (case client params s w of
               (Inl error, s', w') \<Rightarrow> (Inl error, (this, s'), w')
             | (Inr resp, s', w') \<Rightarrow> (Inr resp, (updateCache cacheKey resp this w', s'), w'))
      | None \<Rightarrow>
          (case client params s w of
             (Inl error, s', w') \<Rightarrow> (Inl error, (this, s'), w')
           | (Inr resp, s', w') \<Rightarrow> (Inr resp, (updateCache cacheKey resp this w', s'), w')))"

section \<open>Fallback strategies and the complete example\<close>

datatype SearchResult =
  SearchResult (kind: string) (reply: "string option") (items: "string list") (confidence: string)

definition stopWords :: "string list" where
  "stopWords =
     [''what'', ''is'', ''the'', ''how'', ''do'', ''i'', ''can'',
      ''where'', ''when'', ''why'', ''a'', ''an'', ''and'', ''or'']"

text \<open>
  \<^verbatim>\<open>split(/\s+/)\<close>: the maximal runs of non-space characters. (JavaScript also yields an
  empty string before leading and after trailing white space; the filter of
  \<^verbatim>\<open>extractKeywords\<close> drops it, as it drops every word of at most two characters.)
\<close>

fun split_spaces :: "string \<Rightarrow> string \<Rightarrow> string list" where
  "split_spaces [] word = (if word = [] then [] else [word])"
| "split_spaces (c # rest) word =
     (if isSpace c then (if word = [] then split_spaces rest [] else word # split_spaces rest [])
      else split_spaces rest (word @ [c]))"

definition extractKeywords :: "string \<Rightarrow> string list" where
  "extractKeywords str =
     filter (\<lambda>word. word \<notin> set stopWords \<and> length word > 2) (split_spaces (toLowerCase str) [])"

fun join :: "string list \<Rightarrow> string" where
  "join [] = []"
| "join [word] = word"
| "join (word # others) = word @ '' '' @ join others"

text \<open>
  A \<^verbatim>\<open>ResilientSearchClient\<close> holds a primary client and a cache client. Both act on
  the state of the whole object graph, of type \<open>'g\<close>. The cache client is optional in
  the class; the complete example passes one, so the branch of \<^verbatim>\<open>tryCachedSearch\<close>
  that throws for a missing cache client is left out.
\<close>

definition tryPrimarySearch :: "'g client \<Rightarrow> string \<Rightarrow> string \<Rightarrow> 'g \<Rightarrow> world \<Rightarrow> (error + SearchResult) \<times> 'g \<times> world" where
  "tryPrimarySearch primaryClient corpus str g w =
     (case primaryClient
             \<lparr>corpusId = corpus, query = str, limit = Some 10, generateAnswer = Some True\<rparr> g w of
        (Inl error, g', w') \<Rightarrow> (Inl error, g', w')
      | (Inr resp, g', w') \<Rightarrow>
          (Inr (SearchResult ''primary'' (answer resp) (results resp) ''high''), g', w'))"

definition tryCachedSearch :: "'g client \<Rightarrow> string \<Rightarrow> string \<Rightarrow> 'g \<Rightarrow> world \<Rightarrow> (error + SearchResult) \<times> 'g \<times> world" where
  "tryCachedSearch cacheClient corpus str g w =
     (case cacheClient
             \<lparr>corpusId = corpus, query = str, limit = Some 5, generateAnswer = Some False\<rparr> g w of
        (Inl error, g', w') \<Rightarrow> (Inl error, g', w')
      | (Inr resp, g', w') \<Rightarrow>
          (Inr (SearchResult ''cached'' (Some ''Showing cached results'') (results resp) ''medium''),
           g', w'))"

definition trySimplifiedSearch :: "'g client \<Rightarrow> string \<Rightarrow> string \<Rightarrow> 'g \<Rightarrow> world \<Rightarrow> (error + SearchResult) \<times> 'g \<times> world" where
  "trySimplifiedSearch primaryClient corpus str g w =
     (let simplifiedQuery = join (extractKeywords str) in
      case primaryClient
             \<lparr>corpusId = corpus, query = simplifiedQuery, limit = Some 3,
              generateAnswer = Some False\<rparr> g w of
        (Inl error, g', w') \<Rightarrow> (Inl error, g', w')
      | (Inr resp, g', w') \<Rightarrow>
          (Inr (SearchResult ''simplified'' (Some (''Results for: '' @ simplifiedQuery))
                  (results resp) ''low''),
           g', w'))"

definition returnDefaultResponse :: "string \<Rightarrow> SearchResult" where
  "returnDefaultResponse str =
     SearchResult ''default''
       (Some ''Search is temporarily unavailable. Please try again later.'') [] ''none''"

text \<open>
  The loop over the four strategies, the first that does not throw wins. The last one
  cannot throw, so the final \<^verbatim>\<open>throw new Error('All search strategies failed')\<close> is
  never reached.
\<close>

definition searchWithFallback ::
  "'g client \<Rightarrow> 'g client \<Rightarrow> string \<Rightarrow> string \<Rightarrow> 'g \<Rightarrow> world \<Rightarrow> (error + SearchResult) \<times> 'g \<times> world" where
  "searchWithFallback primaryClient cacheClient corpus str g w =
     (case tryPrimarySearch primaryClient corpus str g w of
        (Inr found, g1, w1) \<Rightarrow> (Inr found, g1, w1)
      | (Inl e1, g1, w1) \<Rightarrow>
          (case tryCachedSearch cacheClient corpus str g1 w1 of
             (Inr found, g2, w2) \<Rightarrow> (Inr found, g2, w2)
           | (Inl e2, g2, w2) \<Rightarrow>
               (case trySimplifiedSearch primaryClient corpus str g2 w2 of
                  (Inr found, g3, w3) \<Rightarrow> (Inr found, g3, w3)
                | (Inl e3, g3, w3) \<Rightarrow> (Inr (returnDefaultResponse str), g3, w3))))"

subsection \<open>The wiring\<close>

text \<open>
  \<^verbatim>\<open>
  const retryableClient = new RetryableVantigeClient(vantigeClient);
  const circuitBreakerClient = new CircuitBreakerClient(retryableClient);
  const monitoredClient = new MonitoredVantigeClient(circuitBreakerClient);
  const cachedClient = new CachedVantigeClient(monitoredClient);
  const resilientClient = new ResilientSearchClient(monitoredClient, cachedClient);
  \<close>
  The remote client \<open>vantigeClient\<close> is a parameter: any client, with any state.
\<close>

definition retryableClient :: "'s client \<Rightarrow> 's client" where
  "retryableClient vantigeClient =
     Retryable_query (new_RetryableVantigeClient noOptions) vantigeClient noOptions"

definition circuitBreakerClient :: "'s client \<Rightarrow> (CircuitBreakerClient \<times> 's) client" where
  "circuitBreakerClient vantigeClient = CircuitBreaker_query (retryableClient vantigeClient)"

definition monitoredClient ::
  "'s client \<Rightarrow> (MonitoredVantigeClient \<times> CircuitBreakerClient \<times> 's) client" where
  "monitoredClient vantigeClient = Monitored_query (circuitBreakerClient vantigeClient)"

definition cachedClient ::
  "(QueryParams \<Rightarrow> string) \<Rightarrow> 's client
     \<Rightarrow> (CachedVantigeClient \<times> MonitoredVantigeClient \<times> CircuitBreakerClient \<times> 's) client" where
  "cachedClient JSON_stringify vantigeClient =
     Cached_query JSON_stringify (monitoredClient vantigeClient)"

text \<open>
  \<open>monitoredClient\<close> is one object, used by the cache as its inner client and by
  the resilient client as its primary client: as a primary client it acts on the part of
  the object graph below the cache.
\<close>

definition below_cache :: "'t client \<Rightarrow> (CachedVantigeClient \<times> 't) client" where
  "below_cache client params g w =
     (case client params (snd g) w of (r, t', w') \<Rightarrow> (r, (fst g, t'), w'))"

definition resilientClient ::
  "(QueryParams \<Rightarrow> string) \<Rightarrow> 's client \<Rightarrow> string \<Rightarrow> string
     \<Rightarrow> (CachedVantigeClient \<times> MonitoredVantigeClient \<times> CircuitBreakerClient \<times> 's)
     \<Rightarrow> world
     \<Rightarrow> (error + SearchResult)
        \<times> (CachedVantigeClient \<times> MonitoredVantigeClient \<times> CircuitBreakerClient \<times> 's) \<times> world" where
  "resilientClient JSON_stringify vantigeClient =
     searchWithFallback (below_cache (monitoredClient vantigeClient))
       (cachedClient JSON_stringify vantigeClient)"

definition wired ::
  "'s \<Rightarrow> CachedVantigeClient \<times> MonitoredVantigeClient \<times> CircuitBreakerClient \<times> 's" where
  "wired s =
     (new_CachedVantigeClient, new_MonitoredVantigeClient 100,
      new_CircuitBreakerClient noBreakerOptions, s)"

text \<open>
  The composition as the specification words it, for comparison: Monitoring wraps
  CircuitBreaker wraps Retry wraps Cache wraps the remote client.
\<close>

definition spec_resilientClient ::
  "(QueryParams \<Rightarrow> string) \<Rightarrow> 's client
     \<Rightarrow> (MonitoredVantigeClient \<times> CircuitBreakerClient \<times> CachedVantigeClient \<times> 's) client" where
  "spec_resilientClient JSON_stringify vantigeClient =
     Monitored_query
       (CircuitBreaker_query
          (Retryable_query (new_RetryableVantigeClient noOptions)
             (Cached_query JSON_stringify vantigeClient) noOptions))"

definition spec_wired ::
  "'s \<Rightarrow> MonitoredVantigeClient \<times> CircuitBreakerClient \<times> CachedVantigeClient \<times> 's" where
  "spec_wired s =
     (new_MonitoredVantigeClient 100, new_CircuitBreakerClient noBreakerOptions,
      new_CachedVantigeClient, s)"

section \<open>Concrete values for the examples\<close>

definition params0 :: QueryParams where
  "params0 =
     \<lparr>corpusId = ''docs'', query = ''How do I get started?'', limit = None,
      generateAnswer = None\<rparr>"

definition world0 :: world where
  "world0 = \<lparr>now = 0, randoms = (\<lambda>n. 0), drawn = 0\<rparr>"

definition response0 :: QueryResponse where
  "response0 = QueryResponse [''r1''] None ''q-1''"

text \<open>Remote clients without state: one that always throws, one that always answers.\<close>

definition failing :: "error \<Rightarrow> unit client" where
  "failing e params s w = (Inl e, s, w)"

definition answering :: "QueryResponse \<Rightarrow> unit client" where
  "answering resp params s w = (Inr resp, s, w)"


text \<open>A stand-in for \<^verbatim>\<open>JSON.stringify\<close> on the examples' requests.\<close>

definition stringify0 :: "QueryParams \<Rightarrow> string" where
  "stringify0 params = ''{'' @ corpusId params @ '','' @ query params @ ''}''"

definition unavailable :: error where
  "unavailable = VantigeSDKError 503 ''Service Unavailable'' None"

definition unauthorized :: error where
  "unauthorized = VantigeSDKError 401 ''Invalid API key'' None"

text \<open>
  Per-call options in the manner of the guide's usage example, with a backoff multiplier
  of one and a half.
\<close>

definition example_percall :: RetryOptions where
  "example_percall =
     \<lparr>opt_maxRetries = Some (Some 5), opt_initialDelay = Some 500, opt_maxDelay = None,
      opt_backoffMultiplier = Some 1.5, opt_retryableErrors = Some [429, 500, 502, 503]\<rparr>"






text \<open>Call sequences and breakers for the examples.\<close>

definition calls3 :: "(int \<times> QueryParams) list" where
  "calls3 = [(0, params0), (10, params0), (10, params0)]"








text \<open>
  Values for the cache examples: a cache with one entry; the keys a reachable cache has
  (at most \<open>maxCacheSize\<close> of them, distinct, none empty); a cache at capacity made
  of the entries A and B and 98 more entries with two hits each; the requests and the
  entry for the keys b and z.
\<close>

definition cache1 :: CachedVantigeClient where
  "cache1 =
     [(getCacheKey stringify0 params0, \<lparr>response = response0, timestamp = 0, hits = 0\<rparr>)]"

definition filler :: "nat \<Rightarrow> string \<times> CacheEntry" where
  "filler i =
     (''{docs,'' @ replicate (Suc i) CHR ''f'' @ ''}'',
      \<lparr>response = response0, timestamp = 0, hits = 2\<rparr>)"

definition fillers :: CachedVantigeClient where
  "fillers = map filler [0..<98]"

definition entryA :: "string \<times> CacheEntry" where
  "entryA = (''{docs,a}'', \<lparr>response = response0, timestamp = 0, hits = 0\<rparr>)"

definition entryB :: "string \<times> CacheEntry" where
  "entryB = (''{docs,b}'', \<lparr>response = response0, timestamp = 10000, hits = 1\<rparr>)"

definition cacheAB :: CachedVantigeClient where
  "cacheAB = entryA # entryB # fillers"

definition paramsB :: QueryParams where
  "paramsB = \<lparr>corpusId = ''docs'', query = ''b'', limit = None, generateAnswer = None\<rparr>"

definition paramsZ :: QueryParams where
  "paramsZ = \<lparr>corpusId = ''docs'', query = ''Z '', limit = None, generateAnswer = None\<rparr>"

definition entryZ :: "int \<Rightarrow> string \<times> CacheEntry" where
  "entryZ t = (''{docs,z}'', \<lparr>response = response0, timestamp = t, hits = 0\<rparr>)"

definition cache_ok :: "CachedVantigeClient \<Rightarrow> bool" where
  "cache_ok this =
     (length this \<le> maxCacheSize \<and> distinct (map fst this) \<and> [] \<notin> fst ` set this)"

text \<open>
  Call sequences from the empty cache. The requests \<open>numbered 0\<close>, \<open>numbered 1\<close>, ...
  have distinct keys; \<open>stored i t h\<close> is the entry of \<open>numbered i\<close> stored at time
  \<open>t\<close> with \<open>h\<close> hits, and \<open>storedFrom h t n\<close> the entries of the first \<open>n\<close> of
  them, stored one millisecond apart after time \<open>t\<close>. \<open>distinctQueries n\<close> sends the
  first \<open>n\<close> of them one millisecond apart; \<open>warm n\<close> sends each of them three times
  in a row. \<open>callsBA\<close> sends b, 290000 ms later a, 10000 ms later b twice, then
  \<open>warm 98\<close>; \<open>callsAB\<close> is the same without the first b. \<open>cachedBA\<close> and
  \<open>cachedAB\<close> are the caches they produce.
\<close>

definition numbered :: "nat \<Rightarrow> QueryParams" where
  "numbered i =
     \<lparr>corpusId = ''docs'', query = replicate (Suc i) CHR ''f'', limit = None,
      generateAnswer = None\<rparr>"

definition stored :: "nat \<Rightarrow> int \<Rightarrow> nat \<Rightarrow> string \<times> CacheEntry" where
  "stored i t h = (fst (filler i), \<lparr>response = response0, timestamp = t, hits = h\<rparr>)"

definition storedFrom :: "nat \<Rightarrow> int \<Rightarrow> nat \<Rightarrow> CachedVantigeClient" where
  "storedFrom h t n = map (\<lambda>i. stored i (t + 1 + int i) h) [0..<n]"

definition distinctQueries :: "nat \<Rightarrow> (int \<times> QueryParams) list" where
  "distinctQueries n = map (\<lambda>i. (1, numbered i)) [0..<n]"

definition warm :: "nat \<Rightarrow> (int \<times> QueryParams) list" where
  "warm n = concat (map (\<lambda>i. [(1, numbered i), (0, numbered i), (0, numbered i)]) [0..<n])"

definition paramsA :: QueryParams where
  "paramsA = \<lparr>corpusId = ''docs'', query = ''a'', limit = None, generateAnswer = None\<rparr>"

definition storedA :: "string \<times> CacheEntry" where
  "storedA = (''{docs,a}'', \<lparr>response = response0, timestamp = 290000, hits = 0\<rparr>)"

definition storedB :: "string \<times> CacheEntry" where
  "storedB = (''{docs,b}'', \<lparr>response = response0, timestamp = 300000, hits = 1\<rparr>)"

definition callsBA :: "(int \<times> QueryParams) list" where
  "callsBA = [(0, paramsB), (290000, paramsA), (10000, paramsB), (0, paramsB)] @ warm 98"

definition callsAB :: "(int \<times> QueryParams) list" where
  "callsAB = [(290000, paramsA), (10000, paramsB), (0, paramsB)] @ warm 98"

definition cachedBA :: CachedVantigeClient where
  "cachedBA = storedB # storedA # storedFrom 2 300000 98"

definition cachedAB :: CachedVantigeClient where
  "cachedAB = storedA # storedB # storedFrom 2 300000 98"

definition search_twice ::
  "(QueryParams \<Rightarrow> string) \<Rightarrow> 's client \<Rightarrow> string \<Rightarrow> string
     \<Rightarrow> (CachedVantigeClient \<times> MonitoredVantigeClient \<times> CircuitBreakerClient \<times> 's)
     \<Rightarrow> world
     \<Rightarrow> (error + SearchResult) list
        \<times> (CachedVantigeClient \<times> MonitoredVantigeClient \<times> CircuitBreakerClient \<times> 's) \<times> world" where
  "search_twice JSON_stringify vantigeClient corpus str g w =
     (case resilientClient JSON_stringify vantigeClient corpus str g w of
        (r1, g1, w1) \<Rightarrow>
          (case resilientClient JSON_stringify vantigeClient corpus str g1 w1 of
             (r2, g2, w2) \<Rightarrow> ([r1, r2], g2, w2)))"

definition invocations :: "'a \<times> 'b \<times> 'c \<times> (outcome list \<times> 's) \<Rightarrow> nat" where
  "invocations g = length (fst (snd (snd (snd g))))"

definition primaryParams :: QueryParams where
  "primaryParams =
     \<lparr>corpusId = ''docs'', query = ''z'', limit = Some 10, generateAnswer = Some True\<rparr>"

section \<open>Properties of the retry wrapper\<close>

lemma spread_noOptions [simp]: "spread d noOptions = d"
  by (simp add: spread_def noOptions_def)

lemma recorded_outcome:
  "client params s w = (r, s', w') \<Longrightarrow>
   recorded client params (seen, s) w = (r, (seen @ [r], s'), w')"
  by (simp add: recorded_def)

lemma attemptAllowed_whole [simp]: "attemptAllowed attempt (Some (real N)) = (attempt \<le> N)"
  by (simp add: attemptAllowed_def)

lemma lastAttempt_whole [simp]: "lastAttempt attempt (Some (real N)) = (attempt = N)"
  by (auto simp: lastAttempt_def)

text \<open>
  The loop invariant, for a \<open>maxRetries\<close> that is a number \<open>m \<ge> 0\<close>: when every
  invocation throws a retryable error, the loop entered at \<open>attempt\<close> invokes the client
  once for each remaining attempt up to \<open>\<lfloor>m\<rfloor>\<close> and throws what the last invocation
  threw (from inside the loop when \<open>m\<close> is whole, after one more sleep otherwise).
\<close>

lemma query_loop_exhaust:
  assumes fail: "\<forall>s w. \<exists>e s' w'. client params s w = (Inl e, s', w')
      \<and> isRetryable e (retryableErrors opts)"
    and num: "maxRetries opts = Some m" and pos: "0 \<le> m"
  shows "n = nat \<lfloor>m\<rfloor> - attempt \<Longrightarrow> attempt \<le> nat \<lfloor>m\<rfloor> \<Longrightarrow>
    \<exists>e new s' w'. query_loop opts (recorded client) params attempt lerr (seen, s) w
        = (Inl e, (seen @ new, s'), w')
      \<and> length new = nat \<lfloor>m\<rfloor> + 1 - attempt \<and> last new = Inl e"
proof (induction n arbitrary: attempt lerr seen s w)
  case 0
  then have eq: "attempt = nat \<lfloor>m\<rfloor>" by simp
  have lo: "real attempt \<le> m" and hi: "\<not> real (attempt + 1) \<le> m"
    using pos by (simp_all add: eq) linarith+
  from fail obtain e s' w' where c: "client params s w = (Inl e, s', w')"
    and r: "isRetryable e (retryableErrors opts)" by blast
  obtain delay w'' where d: "calculateDelay attempt e opts w' = (delay, w'')"
    by (cases "calculateDelay attempt e opts w'")
  have after: "query_loop opts (recorded client) params (attempt + 1) (Some e)
      (seen @ [Inl e], s') (sleep delay w'') = (Inl e, (seen @ [Inl e], s'), sleep delay w'')"
    using hi by (subst query_loop.simps) (simp add: num attemptAllowed_def throwLast_def)
  have "\<exists>v. query_loop opts (recorded client) params attempt lerr (seen, s) w
      = (Inl e, (seen @ [Inl e], s'), v)"
    using lo after
    by (subst query_loop.simps)
      (simp add: num attemptAllowed_def recorded_def c r d throwLast_def)
  then show ?case using eq by force
next
  case (Suc n)
  then have lt: "attempt < nat \<lfloor>m\<rfloor>" and n: "n = nat \<lfloor>m\<rfloor> - (attempt + 1)"
    by simp_all
  have "real (nat \<lfloor>m\<rfloor>) \<le> m" using pos by simp
  with lt have lo: "real attempt < m" by linarith
  from fail obtain e s' w' where c: "client params s w = (Inl e, s', w')"
    and r: "isRetryable e (retryableErrors opts)" by blast
  obtain delay w'' where d: "calculateDelay attempt e opts w' = (delay, w'')"
    by (cases "calculateDelay attempt e opts w'")
  have step: "query_loop opts (recorded client) params attempt lerr (seen, s) w
      = query_loop opts (recorded client) params (attempt + 1) (Some e)
          (seen @ [Inl e], s') (sleep delay w'')"
    using lo
    by (subst query_loop.simps)
      (simp add: num attemptAllowed_def lastAttempt_def recorded_def c r d)
  from Suc.IH [OF n, of "Some e" "seen @ [Inl e]" s' "sleep delay w''"] lt
  obtain e2 new s2 w2 where
    q: "query_loop opts (recorded client) params (attempt + 1) (Some e)
          (seen @ [Inl e], s') (sleep delay w'')
        = (Inl e2, ((seen @ [Inl e]) @ new, s2), w2)"
    and l: "length new = nat \<lfloor>m\<rfloor> + 1 - (attempt + 1)" and la: "last new = Inl e2"
    by auto
  from l lt have ne: "new \<noteq> []" by auto
  show ?case
    apply (rule exI [of _ e2], rule exI [of _ "Inl e # new"], rule exI [of _ s2],
        rule exI [of _ w2])
    using step q l la lt ne by simp
qed






text \<open>
  C4, as the code has it. The hint is honoured for a \<^verbatim>\<open>VantigeSDKError\<close> of code 429
  with a non-zero \<^verbatim>\<open>retryAfter\<close>: the delay is the hint times 1000, and no random
  number is drawn. For an SDK error of any other code the hint is ignored: the delay is
  the floor of the exponential delay plus jitter.
\<close>

theorem retry_after_hint_rate_limited_only:
  "(retryAfter \<noteq> 0 \<longrightarrow>
      calculateDelay attempt (VantigeSDKError 429 message (Some retryAfter)) opts w
        = (retryAfter * 1000, w))
   \<and> (code \<noteq> 429 \<longrightarrow>
      calculateDelay attempt (VantigeSDKError code msg hint) opts w
        = (of_int \<lfloor>exponentialDelay attempt opts
             + randoms w (drawn w) * 0.3 * exponentialDelay attempt opts\<rfloor>,
           w\<lparr>drawn := drawn w + 1\<rparr>))"
  by (cases hint) (simp_all add: calculateDelay_def Math_random_def)

theorem retry_after_hint_rate_limited_only_witness:
  "calculateDelay 0 (VantigeSDKError 429 ''Too Many Requests'' (Some 2)) builtinRetryOptions world0
     = (2000, world0)
   \<and> calculateDelay 0 (VantigeSDKError 503 ''Service Unavailable'' (Some 2)) builtinRetryOptions
       world0 = (1000, world0\<lparr>drawn := 1\<rparr>)"
  using retry_after_hint_rate_limited_only [where retryAfter = 2 and attempt = 0
      and message = "''Too Many Requests''" and opts = builtinRetryOptions and w = world0
      and code = 503 and msg = "''Service Unavailable''" and hint = "Some 2"]
  by (simp add: exponentialDelay_def builtinRetryOptions_def world0_def)

text \<open>
  C4 as stated fails: a 503 error is retryable by default, carries a hint of 2 seconds,
  and the delay before the first retry is not 2000 ms.
\<close>

theorem retry_after_hint_counterexample:
  "isRetryable (VantigeSDKError 503 ''Service Unavailable'' (Some 2))
     (retryableErrors builtinRetryOptions)
   \<and> fst (calculateDelay 0 (VantigeSDKError 503 ''Service Unavailable'' (Some 2))
            builtinRetryOptions world0) \<noteq> 2 * 1000"
  by (simp add: calculateDelay_def Math_random_def exponentialDelay_def builtinRetryOptions_def
      world0_def)




lemma floor_jitter_bounds:
  fixes b r :: real
  assumes "0 \<le> b" "0 \<le> r" "r < 1"
  shows "of_int \<lfloor>b\<rfloor> \<le> (of_int \<lfloor>b + r * 0.3 * b\<rfloor> :: real)"
    and "(of_int \<lfloor>b + r * 0.3 * b\<rfloor> :: real) \<le> 1.3 * b"
    and "b - 1 < of_int \<lfloor>b + r * 0.3 * b\<rfloor>"
proof -
  have j0: "0 \<le> r * 0.3 * b" using assms by simp
  have j1: "r * 0.3 * b \<le> 0.3 * b"
    using mult_right_le_one_le [of b r] assms by (simp add: mult.commute)
  have "\<lfloor>b\<rfloor> \<le> \<lfloor>b + r * 0.3 * b\<rfloor>" using j0 by (intro floor_mono) simp
  then show "of_int \<lfloor>b\<rfloor> \<le> (of_int \<lfloor>b + r * 0.3 * b\<rfloor> :: real)" by simp
  have "(of_int \<lfloor>b + r * 0.3 * b\<rfloor> :: real) \<le> b + r * 0.3 * b" by (rule of_int_floor_le)
  also have "\<dots> \<le> 1.3 * b" using j1 by simp
  finally show "(of_int \<lfloor>b + r * 0.3 * b\<rfloor> :: real) \<le> 1.3 * b" .
  have "b + r * 0.3 * b - 1 < of_int \<lfloor>b + r * 0.3 * b\<rfloor>" by linarith
  then show "b - 1 < of_int \<lfloor>b + r * 0.3 * b\<rfloor>" using j0 by linarith
qed

lemma exponentialDelay_nonneg:
  "0 \<le> initialDelay opts \<Longrightarrow> 0 \<le> backoffMultiplier opts \<Longrightarrow> 0 \<le> maxDelay opts
     \<Longrightarrow> 0 \<le> exponentialDelay attempt opts"
  by (simp add: exponentialDelay_def)

text \<open>
  C9, as the code has it. Without a usable hint, and for options that are not negative,
  the delay before jitter is \<open>min (initialDelay * backoffMultiplier ^ attempt) maxDelay\<close>
  and the delay returned is the floor of that value plus the jitter. It is never below the
  floor of the base value, less than one millisecond below the base value, never above
  1.3 times the base value, and never below the base value when that is a whole number.
\<close>

theorem backoff_delay_bounds:
  assumes "serverRetryAfter error = None"
    and "0 \<le> initialDelay opts" and "0 \<le> backoffMultiplier opts" and "0 \<le> maxDelay opts"
    and "0 \<le> randoms w (drawn w)" and "randoms w (drawn w) < 1"
  shows "exponentialDelay attempt opts
           = min (initialDelay opts * backoffMultiplier opts ^ attempt) (maxDelay opts)
    \<and> fst (calculateDelay attempt error opts w)
           = of_int \<lfloor>exponentialDelay attempt opts
               + randoms w (drawn w) * 0.3 * exponentialDelay attempt opts\<rfloor>
    \<and> of_int \<lfloor>exponentialDelay attempt opts\<rfloor> \<le> fst (calculateDelay attempt error opts w)
    \<and> exponentialDelay attempt opts - 1 < fst (calculateDelay attempt error opts w)
    \<and> fst (calculateDelay attempt error opts w) \<le> 1.3 * exponentialDelay attempt opts
    \<and> (exponentialDelay attempt opts \<in> \<int>
          \<longrightarrow> exponentialDelay attempt opts \<le> fst (calculateDelay attempt error opts w))"
proof -
  let ?b = "exponentialDelay attempt opts"
  let ?r = "randoms w (drawn w)"
  have b0: "0 \<le> ?b" using assms(2-4) by (rule exponentialDelay_nonneg)
  have d: "fst (calculateDelay attempt error opts w) = of_int \<lfloor>?b + ?r * 0.3 * ?b\<rfloor>"
    using assms(1) by (simp add: calculateDelay_def Math_random_def)
  note fb = floor_jitter_bounds [OF b0 assms(5) assms(6)]
  have int: "?b \<in> \<int> \<longrightarrow> ?b \<le> of_int \<lfloor>?b + ?r * 0.3 * ?b\<rfloor>"
  proof
    assume "?b \<in> \<int>"
    then have "of_int \<lfloor>?b\<rfloor> = ?b" by (auto elim!: Ints_cases)
    with fb(1) show "?b \<le> of_int \<lfloor>?b + ?r * 0.3 * ?b\<rfloor>" by simp
  qed
  show ?thesis
    using d fb int by (simp add: exponentialDelay_def)
qed

theorem backoff_delay_bounds_witness:
  "exponentialDelay 2 builtinRetryOptions = 4000
   \<and> fst (calculateDelay 2 unavailable builtinRetryOptions world0) = 4000"
  using backoff_delay_bounds [of unavailable builtinRetryOptions world0 2]
  by (simp add: unavailable_def builtinRetryOptions_def world0_def exponentialDelay_def)

text \<open>
  C9 as stated fails: with an initial delay of 500 ms and a multiplier of 1.5 the base
  value of attempt 3 is 1687.5 ms, and with a random number of 0 the delay is 1687 ms.
\<close>

theorem backoff_delay_counterexample:
  "fst (calculateDelay 3 unavailable (spread builtinRetryOptions example_percall) world0)
     < exponentialDelay 3 (spread builtinRetryOptions example_percall)"
  by (simp add: calculateDelay_def Math_random_def exponentialDelay_def builtinRetryOptions_def
      world0_def unavailable_def spread_def example_percall_def power3_eq_cube)

section \<open>Properties of the circuit breaker\<close>


lemma onFailure_closed:
  "state this = CLOSED \<Longrightarrow>
   failures (onFailure e this w) = failures this + 1
   \<and> state (onFailure e this w)
       = (if failures this + 1 \<ge> failureThreshold (options this) then OPEN else CLOSED)"
  by (simp add: onFailure_def Let_def)



lemma breaker_rejects:
  "state this = OPEN \<Longrightarrow> \<not> shouldAttemptReset this w \<Longrightarrow>
   CircuitBreaker_query client params (this, s) w = (Inl circuitOpenError, (this, s), w)"
  by simp

lemma breaker_passes_failure:
  "state this \<noteq> OPEN \<Longrightarrow> client params s w = (Inl e, s', w') \<Longrightarrow>
   CircuitBreaker_query client params (this, s) w = (Inl e, (onFailure e this w', s'), w')"
  by simp

lemma breaker_passes_success:
  "state this \<noteq> OPEN \<Longrightarrow> client params s w = (Inr r, s', w') \<Longrightarrow>
   CircuitBreaker_query client params (this, s) w = (Inr r, (onSuccess this, s'), w')"
  by simp









section \<open>Properties of the monitor\<close>

lemma run_append:
  "run client (xs @ ys) s w =
     (case run client xs s w of
        (o1, s1, w1) \<Rightarrow>
          (case run client ys s1 w1 of (o2, s2, w2) \<Rightarrow> (o1 @ o2, s2, w2)))"
  by (induction xs arbitrary: s w) (auto split: prod.splits)

lemma updateErrorRate_fields:
  "requests (updateErrorRate this) = requests this"
  "windowSize (updateErrorRate this) = windowSize this"
  "totalErrors (metrics (updateErrorRate this)) = totalErrors (metrics this)"
  by (simp_all add: updateErrorRate_def Let_def)


lemma recordError_fields:
  "requests (recordError code message this w) = requests this"
  "windowSize (recordError code message this w) = windowSize this"
  "totalErrors (metrics (recordError code message this w)) = totalErrors (metrics this) + 1"
  by (simp_all add: recordError_def Let_def updateErrorRate_fields)







section \<open>Properties of the cache\<close>

lemma Map_get_Some_key: "Map_get m k = Some v \<Longrightarrow> k \<in> fst ` set m"
proof -
  assume "Map_get m k = Some v"
  then have "map_of m k = Some v" by (simp add: Map_get_def)
  then have "(k, v) \<in> set m" by (rule map_of_SomeD)
  then have "fst (k, v) \<in> fst ` set m" by (rule imageI)
  then show ?thesis by simp
qed

lemma Map_get_None_key: "Map_get m k = None \<longleftrightarrow> k \<notin> fst ` set m"
  by (simp add: Map_get_def map_of_eq_None_iff)

lemma map_of_replace:
  "k \<in> fst ` set m \<Longrightarrow>
   map_of (map (\<lambda>(k', x). if k' = k then (k', v) else (k', x)) m) k = Some v"
proof (induction m)
  case Nil
  then show ?case by simp
next
  case (Cons a m)
  obtain ka xa where a: "a = (ka, xa)" by (cases a)
  show ?case
  proof (cases "ka = k")
    case True
    then show ?thesis by (simp add: a)
  next
    case False
    with Cons.prems have "k \<in> fst ` set m" by (simp add: a)
    from Cons.IH [OF this] False show ?thesis by (simp add: a)
  qed
qed

lemma map_of_snoc:
  "k \<notin> fst ` set m \<Longrightarrow> map_of (m @ [(k, v)]) k = Some v"
  by (induction m) auto

lemma Map_get_Map_set: "Map_get (Map_set m k v) k = Some v"
  by (simp add: Map_get_def Map_set_def map_of_replace map_of_snoc del: map_of_append)

lemma Map_set_length_present: "k \<in> fst ` set m \<Longrightarrow> length (Map_set m k v) = length m"
  by (simp add: Map_set_def)

lemma Map_set_length_absent: "k \<notin> fst ` set m \<Longrightarrow> length (Map_set m k v) = length m + 1"
  by (simp add: Map_set_def)

lemma Map_set_length_le: "length (Map_set m k v) \<le> length m + 1"
  by (simp add: Map_set_def)

lemma Map_set_keys_list_present:
  "k \<in> fst ` set m \<Longrightarrow> map fst (Map_set m k v) = map fst m"
  by (simp add: Map_set_def case_prod_beta if_distrib cong: if_cong)

lemma Map_set_keys: "fst ` set (Map_set m k v) = insert k (fst ` set m)"
proof (cases "k \<in> fst ` set m")
  case True
  have "fst ` set (Map_set m k v) = set (map fst (Map_set m k v))" by simp
  also have "\<dots> = fst ` set m" by (simp only: Map_set_keys_list_present [OF True] set_map)
  finally show ?thesis using True by auto
next
  case False
  then show ?thesis by (simp add: Map_set_def)
qed

lemma Map_delete_keys: "fst ` set (Map_delete m k) = fst ` set m - {k}"
  by (auto simp: Map_delete_def image_iff)

lemma Map_delete_length: "k \<in> fst ` set m \<Longrightarrow> length (Map_delete m k) < length m"
proof -
  assume "k \<in> fst ` set m"
  then obtain x where "x \<in> set m" "\<not> (\<lambda>(k', x). k' \<noteq> k) x" by auto
  then show ?thesis unfolding Map_delete_def by (rule length_filter_less)
qed

lemma Map_delete_distinct:
  "distinct (map fst (pre @ (k, e) # post)) \<Longrightarrow> Map_delete (pre @ (k, e) # post) k = pre @ post"
proof -
  assume d: "distinct (map fst (pre @ (k, e) # post))"
  have "filter (\<lambda>(k', x). k' \<noteq> k) pre = pre"
    by (rule filter_True) (use d in force)
  moreover have "filter (\<lambda>(k', x). k' \<noteq> k) post = post"
    by (rule filter_True) (use d in force)
  ultimately show ?thesis by (simp add: Map_delete_def)
qed

text \<open>The traversal of findLRUKey ends at the first entry of lowest score.\<close>

lemma fold_visit_first_min:
  "this \<noteq> [] \<Longrightarrow>
   \<exists>pre k e post. this = pre @ (k, e) # post
     \<and> fold (visit w) this (None, None) = (Some k, Some (score e w))
     \<and> (\<forall>x \<in> set pre. score e w < score (snd x) w)
     \<and> (\<forall>x \<in> set post. score e w \<le> score (snd x) w)"
proof (induction this rule: rev_induct)
  case Nil
  then show ?case by simp
next
  case (snoc x xs)
  obtain kx ex where x: "x = (kx, ex)" by (cases x)
  show ?case
  proof (cases "xs = []")
    case True
    show ?thesis
      apply (rule exI [of _ "[]"], rule exI [of _ kx], rule exI [of _ ex], rule exI [of _ "[]"])
      by (simp add: True x visit_def)
  next
    case False
    from snoc.IH [OF False] obtain pre k e post where
      d: "xs = pre @ (k, e) # post"
      and f: "fold (visit w) xs (None, None) = (Some k, Some (score e w))"
      and lo: "\<forall>y \<in> set pre. score e w < score (snd y) w"
      and hi: "\<forall>y \<in> set post. score e w \<le> score (snd y) w"
      by blast
    show ?thesis
    proof (cases "score ex w < score e w")
      case True
      have all: "\<forall>y \<in> set xs. score ex w < score (snd y) w"
        using d lo hi True by force
      have "fold (visit w) (xs @ [x]) (None, None) = visit w x (Some k, Some (score e w))"
        using f by simp
      then have r: "fold (visit w) (xs @ [x]) (None, None) = (Some kx, Some (score ex w))"
        using True by (simp add: x visit_def)
      show ?thesis
        apply (rule exI [of _ xs], rule exI [of _ kx], rule exI [of _ ex], rule exI [of _ "[]"])
        using r all by (simp add: x)
    next
      case False
      have "fold (visit w) (xs @ [x]) (None, None) = visit w x (Some k, Some (score e w))"
        using f by simp
      then have r: "fold (visit w) (xs @ [x]) (None, None) = (Some k, Some (score e w))"
        using False by (simp add: x visit_def)
      show ?thesis
        apply (rule exI [of _ pre], rule exI [of _ k], rule exI [of _ e],
            rule exI [of _ "post @ [x]"])
        using r d lo hi False by (simp add: x)
    qed
  qed
qed

lemma findLRUKey_first_min:
  "this \<noteq> [] \<Longrightarrow>
   \<exists>pre k e post. this = pre @ (k, e) # post \<and> findLRUKey this w = Some k
     \<and> (\<forall>x \<in> set pre. score e w < score (snd x) w)
     \<and> (\<forall>x \<in> set post. score e w \<le> score (snd x) w)"
  using fold_visit_first_min [of this w] by (fastforce simp: findLRUKey_def)

lemma findLRUKey_in_keys:
  "this \<noteq> [] \<Longrightarrow> \<exists>k. findLRUKey this w = Some k \<and> k \<in> fst ` set this"
  using findLRUKey_first_min [of this w] by force

lemma maxCacheSize_pos: "0 < maxCacheSize"
  by (simp add: maxCacheSize_def)

lemma Map_set_distinct:
  "distinct (map fst m) \<Longrightarrow> distinct (map fst (Map_set m k v))"
proof (cases "k \<in> fst ` set m")
  case True
  assume "distinct (map fst m)"
  then show ?thesis by (simp only: Map_set_keys_list_present [OF True])
next
  case False
  assume "distinct (map fst m)"
  with False show ?thesis by (simp add: Map_set_def)
qed

lemma Map_delete_distinct_keys:
  "distinct (map fst m) \<Longrightarrow> distinct (map fst (Map_delete m k))"
  by (simp add: Map_delete_def distinct_map_filter)

lemma updateCache_shape:
  assumes "length this \<le> maxCacheSize" and "distinct (map fst this)"
    and "[] \<notin> fst ` set this"
  shows "\<exists>this1. updateCache key resp this w
        = Map_set this1 key \<lparr>response = resp, timestamp = now w, hits = 0\<rparr>
      \<and> length this1 < maxCacheSize \<and> distinct (map fst this1)
      \<and> fst ` set this1 \<subseteq> fst ` set this"
proof (cases "maxCacheSize \<le> length this")
  case True
  with maxCacheSize_pos have ne: "this \<noteq> []" by auto
  from findLRUKey_in_keys [OF ne, of w] obtain k where
    k: "findLRUKey this w = Some k" and kin: "k \<in> fst ` set this" by blast
  from kin assms(3) have kne: "k \<noteq> []" by metis
  have u: "updateCache key resp this w
      = Map_set (Map_delete this k) key \<lparr>response = resp, timestamp = now w, hits = 0\<rparr>"
    using True k kne by (simp add: updateCache_def)
  have "length (Map_delete this k) < maxCacheSize"
    using Map_delete_length [OF kin] assms(1) by simp
  moreover have "distinct (map fst (Map_delete this k))"
    using assms(2) by (rule Map_delete_distinct_keys)
  moreover have "fst ` set (Map_delete this k) \<subseteq> fst ` set this"
    by (auto simp: Map_delete_keys)
  ultimately show ?thesis using u by blast
next
  case False
  then have "updateCache key resp this w
      = Map_set this key \<lparr>response = resp, timestamp = now w, hits = 0\<rparr>"
    by (simp add: updateCache_def)
  with False assms(2) show ?thesis by auto
qed

lemma updateCache_inv:
  assumes "key \<noteq> []" and "length this \<le> maxCacheSize" and "distinct (map fst this)"
    and "[] \<notin> fst ` set this"
  shows "length (updateCache key resp this w) \<le> maxCacheSize
    \<and> distinct (map fst (updateCache key resp this w))
    \<and> [] \<notin> fst ` set (updateCache key resp this w)"
proof -
  from updateCache_shape [OF assms(2-4), of key resp w] obtain this1 where
    u: "updateCache key resp this w
        = Map_set this1 key \<lparr>response = resp, timestamp = now w, hits = 0\<rparr>"
    and l: "length this1 < maxCacheSize" and d: "distinct (map fst this1)"
    and sub: "fst ` set this1 \<subseteq> fst ` set this"
    by blast
  have "length (Map_set this1 key \<lparr>response = resp, timestamp = now w, hits = 0\<rparr>)
      \<le> length this1 + 1"
    by (rule Map_set_length_le)
  with l have "length (updateCache key resp this w) \<le> maxCacheSize" by (simp add: u)
  moreover have "distinct (map fst (updateCache key resp this w))"
    using d by (simp only: u Map_set_distinct)
  moreover have "[] \<notin> fst ` set (updateCache key resp this w)"
  proof -
    have "[] \<notin> insert key (fst ` set this1)" using sub assms(1,4) by (metis insertE subsetD)
    then show ?thesis unfolding u Map_set_keys .
  qed
  ultimately show ?thesis by blast
qed

lemma cache_ok_updateCache:
  "key \<noteq> [] \<Longrightarrow> cache_ok this \<Longrightarrow> cache_ok (updateCache key resp this w)"
  using updateCache_inv [of key this resp w] by (simp add: cache_ok_def)

lemma cache_ok_hit:
  assumes "Map_get this key = Some cached" and "cache_ok this"
  shows "cache_ok (Map_set this key v)"
proof -
  from assms(1) have kin: "key \<in> fst ` set this" by (rule Map_get_Some_key)
  then have "insert key (fst ` set this) = fst ` set this" by auto
  then show ?thesis
    using assms(2)
    by (simp add: cache_ok_def Map_set_length_present [OF kin] Map_set_keys Map_set_distinct)
qed

lemma Cached_query_inv:
  assumes J: "\<forall>p. J p \<noteq> []"
    and inv: "cache_ok this"
    and q: "Cached_query J client params (this, s) w = (r, (this', s'), w')"
  shows "cache_ok this'"
proof -
  let ?key = "getCacheKey J params"
  have kne: "?key \<noteq> []" using J by (simp add: getCacheKey_def)
  note upd = cache_ok_updateCache [OF kne inv]
  show ?thesis
    using q inv upd cache_ok_hit [of this ?key _ , OF _ inv]
    by (auto simp: Let_def split: option.splits if_splits prod.splits sum.splits)
qed

lemma run_Cached_query_inv:
  assumes J: "\<forall>p. J p \<noteq> []"
  shows "cache_ok this \<Longrightarrow>
    run (Cached_query J client) calls (this, s) w = (outs, (this', s'), w') \<Longrightarrow>
    cache_ok this'"
proof (induction calls arbitrary: this s w outs)
  case Nil
  then show ?case by simp
next
  case (Cons c rest)
  obtain dt p where c: "c = (dt, p)" by (cases c)
  obtain r this1 s1 w1 where
    q: "Cached_query J client p (this, s) (tick dt w) = (r, (this1, s1), w1)"
    by (metis prod.exhaust)
  obtain outs1 x where rn0: "run (Cached_query J client) rest (this1, s1) w1 = (outs1, x)"
    by (cases "run (Cached_query J client) rest (this1, s1) w1")
  from Cons.prems(2) q rn0 have x: "x = ((this', s'), w')" by (simp add: c)
  from rn0 x have rn: "run (Cached_query J client) rest (this1, s1) w1 = (outs1, (this', s'), w')"
    by simp
  from Cached_query_inv [OF J Cons.prems(1) q] have "cache_ok this1" .
  from Cons.IH [OF this rn] show ?case .
qed

lemma updateCache_evicts:
  assumes "maxCacheSize \<le> length this" and "distinct (map fst this)"
    and "[] \<notin> fst ` set this"
  shows "\<exists>pre k e post. this = pre @ (k, e) # post
     \<and> (\<forall>x \<in> set pre. score e w < score (snd x) w)
     \<and> (\<forall>x \<in> set post. score e w \<le> score (snd x) w)
     \<and> updateCache key resp this w
         = Map_set (pre @ post) key \<lparr>response = resp, timestamp = now w, hits = 0\<rparr>"
proof -
  from assms(1) maxCacheSize_pos have ne: "this \<noteq> []" by auto
  from findLRUKey_first_min [OF ne, of w] obtain pre k e post where
    d: "this = pre @ (k, e) # post" and f: "findLRUKey this w = Some k"
    and lo: "\<forall>x \<in> set pre. score e w < score (snd x) w"
    and hi: "\<forall>x \<in> set post. score e w \<le> score (snd x) w"
    by blast
  have "k \<in> fst ` set this" by (simp add: d)
  with assms(3) have kne: "k \<noteq> []" by metis
  have del: "Map_delete this k = pre @ post"
    using assms(2) unfolding d by (rule Map_delete_distinct)
  have "updateCache key resp this w
      = Map_set (pre @ post) key \<lparr>response = resp, timestamp = now w, hits = 0\<rparr>"
    using assms(1) f kne del by (simp add: updateCache_def)
  with d lo hi show ?thesis by blast
qed

text \<open>
  C6, as the code has it. When the cache holds at least \<open>maxCacheSize\<close> entries and a
  request whose key is not in the cache succeeds, the cache loses exactly one entry and
  gains the new one at the end: the entry lost has the lowest score
  \<open>hits * 10000 + age\<close> (age taken when the response arrives), and among the entries
  of lowest score it is the first in the insertion order of the \<^verbatim>\<open>Map\<close>: every
  entry before it has a strictly higher score.
\<close>

theorem eviction_first_lowest_score:
  assumes "maxCacheSize \<le> length this" and "distinct (map fst this)"
    and "[] \<notin> fst ` set this"
    and "Map_get this (getCacheKey J params) = None"
    and "client params s w = (Inr resp, s', w')"
  shows "\<exists>pre k e post. this = pre @ (k, e) # post
     \<and> (\<forall>x \<in> set pre. score e w' < score (snd x) w')
     \<and> (\<forall>x \<in> set post. score e w' \<le> score (snd x) w')
     \<and> Cached_query J client params (this, s) w
         = (Inr resp,
            (pre @ post
               @ [(getCacheKey J params, \<lparr>response = resp, timestamp = now w', hits = 0\<rparr>)],
             s'),
            w')"
proof -
  let ?key = "getCacheKey J params"
  from updateCache_evicts [OF assms(1-3), of w' ?key resp] obtain pre k e post where
    d: "this = pre @ (k, e) # post"
    and lo: "\<forall>x \<in> set pre. score e w' < score (snd x) w'"
    and hi: "\<forall>x \<in> set post. score e w' \<le> score (snd x) w'"
    and u: "updateCache ?key resp this w'
         = Map_set (pre @ post) ?key \<lparr>response = resp, timestamp = now w', hits = 0\<rparr>"
    by blast
  from assms(4) have "?key \<notin> fst ` set this" by (simp add: Map_get_None_key)
  then have "?key \<notin> fst ` set (pre @ post)" by (auto simp: d)
  then have "Map_set (pre @ post) ?key \<lparr>response = resp, timestamp = now w', hits = 0\<rparr>
      = pre @ post @ [(?key, \<lparr>response = resp, timestamp = now w', hits = 0\<rparr>)]"
    by (simp add: Map_set_def)
  with u have "Cached_query J client params (this, s) w
         = (Inr resp,
            (pre @ post @ [(?key, \<lparr>response = resp, timestamp = now w', hits = 0\<rparr>)], s'),
            w')"
    using assms(4,5) by simp
  with d lo hi show ?thesis by blast
qed

lemma fillers_length: "length fillers = 98"
  by (simp add: fillers_def)

lemma filler_key: "fst (filler i) = ''{docs,'' @ replicate (Suc i) CHR ''f'' @ ''}''"
  by (simp add: filler_def)

lemma filler_key_inj: "fst (filler i) = fst (filler j) \<Longrightarrow> i = j"
proof -
  assume "fst (filler i) = fst (filler j)"
  then have "length (fst (filler i)) = length (fst (filler j))" by simp
  then show ?thesis by (simp add: filler_key)
qed

lemma fillers_distinct: "distinct (map fst fillers)"
  unfolding fillers_def map_map
  by (rule iffD2 [OF distinct_map]) (auto simp: inj_on_def dest: filler_key_inj)

lemma fillers_keys:
  "''{docs,a}'' \<notin> fst ` set fillers" "''{docs,b}'' \<notin> fst ` set fillers"
  "''{docs,z}'' \<notin> fst ` set fillers" "[] \<notin> fst ` set fillers"
  by (auto simp: fillers_def filler_def)

lemma fillers_score: "x \<in> set fillers \<Longrightarrow> score (snd x) w = 20000 + now w"
  by (auto simp: fillers_def filler_def score_def)

lemma fold_visit_skip:
  "\<forall>x \<in> set xs. m \<le> score (snd x) w \<Longrightarrow>
   fold (visit w) xs (Some k, Some m) = (Some k, Some m)"
  by (induction xs) (simp_all add: visit_def)

lemma cacheAB_ok:
  "length cacheAB = maxCacheSize" "distinct (map fst cacheAB)" "[] \<notin> fst ` set cacheAB"
  using fillers_keys
  by (simp_all add: cacheAB_def entryA_def entryB_def fillers_length
      fillers_distinct maxCacheSize_def)

lemma keyZ: "getCacheKey stringify0 paramsZ = ''{docs,z}''"
  by (simp add: getCacheKey_def stringify0_def paramsZ_def toLowerCase_def trim_def isSpace_def)

lemma keyB: "getCacheKey stringify0 paramsB = ''{docs,b}''"
  by (simp add: getCacheKey_def stringify0_def paramsB_def toLowerCase_def trim_def isSpace_def)

lemma findLRUKey_cacheAB: "findLRUKey cacheAB (world0\<lparr>now := t\<rparr>) = Some ''{docs,a}''"
proof -
  have "fold (visit (world0\<lparr>now := t\<rparr>)) fillers (Some ''{docs,a}'', Some t)
      = (Some ''{docs,a}'', Some t)"
    by (rule fold_visit_skip) (simp add: fillers_score)
  then show ?thesis
    by (simp add: findLRUKey_def cacheAB_def entryA_def entryB_def visit_def score_def)
qed

lemma key_numbered: "getCacheKey stringify0 (numbered i) = fst (filler i)"
proof -
  have l: "toLowerCase (replicate (Suc i) CHR ''f'') = replicate (Suc i) CHR ''f''"
    unfolding toLowerCase_def map_replicate by simp
  have d: "dropWhile isSpace (replicate (Suc i) CHR ''f'') = replicate (Suc i) CHR ''f''"
    by (simp add: isSpace_def)
  have t: "trim (replicate (Suc i) CHR ''f'') = replicate (Suc i) CHR ''f''"
    unfolding trim_def d rev_replicate d ..
  show ?thesis
    unfolding getCacheKey_def numbered_def
    by (simp only: QueryParams.simps l t stringify0_def filler_key) simp
qed

lemma keyA: "getCacheKey stringify0 paramsA = ''{docs,a}''"
  by (simp add: getCacheKey_def stringify0_def paramsA_def toLowerCase_def trim_def isSpace_def)

lemma stored_key [simp]: "fst (stored i t h) = fst (filler i)"
  by (simp add: stored_def)

lemma storedFrom_keys: "fst ` set (storedFrom h t n) = (\<lambda>i. fst (filler i)) ` {0..<n}"
  by (force simp: storedFrom_def image_iff)

lemma storedFrom_Suc:
  "storedFrom h t (Suc n) = storedFrom h t n @ [stored n (t + 1 + int n) h]"
  by (simp add: storedFrom_def)

lemma storedFrom_length [simp]: "length (storedFrom h t n) = n"
  by (simp add: storedFrom_def)

lemma filler_not_in_storedFrom: "n \<le> i \<Longrightarrow> fst (filler i) \<notin> fst ` set (storedFrom h t n)"
proof
  assume "n \<le> i" and "fst (filler i) \<in> fst ` set (storedFrom h t n)"
  then obtain j where "j < n" and "fst (filler i) = fst (filler j)"
    by (auto simp: storedFrom_keys)
  with filler_key_inj [of i j] \<open>n \<le> i\<close> show False by simp
qed

lemma Map_set_absent: "k \<notin> fst ` set m \<Longrightarrow> Map_set m k v = m @ [(k, v)]"
  by (simp add: Map_set_def)

lemma Map_set_last: "k \<notin> fst ` set base \<Longrightarrow> Map_set (base @ [(k, e)]) k v = base @ [(k, v)]"
proof -
  assume a: "k \<notin> fst ` set base"
  have "map (\<lambda>(k', x). if k' = k then (k', v) else (k', x)) base = base"
    using a by (intro map_idI) (auto simp: image_iff split: prod.splits)
  then show ?thesis by (simp add: Map_set_def)
qed

lemma Map_delete_absent: "k \<notin> fst ` set m \<Longrightarrow> Map_delete m k = m"
  unfolding Map_delete_def by (intro filter_True) (auto simp: image_iff)

lemma Map_delete_last: "k \<notin> fst ` set base \<Longrightarrow> Map_delete (base @ [(k, e)]) k = base"
  using Map_delete_absent [of k base] by (simp add: Map_delete_def)

lemma Map_delete_head: "k \<notin> fst ` set rest \<Longrightarrow> Map_delete ((k, e) # rest) k = rest"
  using Map_delete_absent [of k rest] by (simp add: Map_delete_def)

lemma Map_get_last: "k \<notin> fst ` set base \<Longrightarrow> Map_get (base @ [(k, e)]) k = Some e"
  unfolding Map_get_def by (rule map_of_snoc)

lemma findLRUKey_last_min:
  assumes "\<forall>x \<in> set base. score e w < score (snd x) w"
  shows "findLRUKey (base @ [(k, e)]) w = Some k"
proof (cases "base = []")
  case True
  then show ?thesis by (simp add: findLRUKey_def visit_def)
next
  case False
  from fold_visit_first_min [OF False, of w]
  obtain pre k' e' post where b: "base = pre @ (k', e') # post"
    and f: "fold (visit w) base (None, None) = (Some k', Some (score e' w))"
    by blast
  from b assms have "score e w < score e' w" by auto
  then show ?thesis by (simp add: findLRUKey_def f visit_def)
qed

lemma findLRUKey_head_min:
  assumes "\<forall>x \<in> set rest. score e w \<le> score (snd x) w"
  shows "findLRUKey ((k, e) # rest) w = Some k"
  using fold_visit_skip [OF assms, of k] by (simp add: findLRUKey_def visit_def)

lemma Cached_query_insert:
  assumes "getCacheKey J params \<notin> fst ` set this" and "length this < maxCacheSize"
    and "client params s w = (Inr resp, s', w')"
  shows "Cached_query J client params (this, s) w
    = (Inr resp,
       (this @ [(getCacheKey J params, \<lparr>response = resp, timestamp = now w', hits = 0\<rparr>)], s'),
       w')"
proof -
  from assms(1) have "Map_get this (getCacheKey J params) = None"
    by (simp add: Map_get_None_key)
  then show ?thesis using assms by (simp add: updateCache_def Map_set_absent)
qed

lemma Cached_query_hit_last:
  assumes "getCacheKey J params = key" and "key \<notin> fst ` set base" and "isCacheValid e w"
  shows "Cached_query J client params (base @ [(key, e)], s) w
    = (Inr (response e), (base @ [(key, e\<lparr>hits := hits e + 1\<rparr>)], s), w)"
  using assms by (simp add: Map_get_last Map_set_last)

lemma Cached_query_evict_last:
  assumes "getCacheKey J params = key" and "key \<notin> fst ` set base" and "key \<noteq> k"
    and "k \<notin> fst ` set base" and "k \<noteq> []" and "maxCacheSize \<le> length base + 1"
    and "\<forall>x \<in> set base. score e w' < score (snd x) w'"
    and "client params s w = (Inr resp, s', w')"
  shows "Cached_query J client params (base @ [(k, e)], s) w
    = (Inr resp, (base @ [(key, \<lparr>response = resp, timestamp = now w', hits = 0\<rparr>)], s'), w')"
proof -
  from assms(1-3) have "Map_get (base @ [(k, e)]) (getCacheKey J params) = None"
    by (simp add: Map_get_None_key)
  moreover have "updateCache key resp (base @ [(k, e)]) w'
      = base @ [(key, \<lparr>response = resp, timestamp = now w', hits = 0\<rparr>)]"
    using assms(2,4,5,6) findLRUKey_last_min [OF assms(7), of k]
    by (simp add: updateCache_def Map_delete_last Map_set_absent)
  ultimately show ?thesis using assms(1,8) by simp
qed

lemma Cached_query_evict_head:
  assumes "getCacheKey J params = key" and "key \<notin> fst ` set rest" and "key \<noteq> k"
    and "k \<notin> fst ` set rest" and "k \<noteq> []" and "maxCacheSize \<le> length rest + 1"
    and "\<forall>x \<in> set rest. score e w' \<le> score (snd x) w'"
    and "client params s w = (Inr resp, s', w')"
  shows "Cached_query J client params ((k, e) # rest, s) w
    = (Inr resp, (rest @ [(key, \<lparr>response = resp, timestamp = now w', hits = 0\<rparr>)], s'), w')"
proof -
  from assms(1-3) have "Map_get ((k, e) # rest) (getCacheKey J params) = None"
    by (simp add: Map_get_None_key)
  moreover have "updateCache key resp ((k, e) # rest) w'
      = rest @ [(key, \<lparr>response = resp, timestamp = now w', hits = 0\<rparr>)]"
    using assms(2,4,5,6) findLRUKey_head_min [OF assms(7), of k]
    by (simp add: updateCache_def Map_delete_head Map_set_absent)
  ultimately show ?thesis using assms(1,8) by simp
qed


lemma recorded_answering:
  "recorded (answering r) p (seen, ()) w = (Inr r, (seen @ [Inr r], ()), w)"
  by (simp add: recorded_def answering_def)

lemma filler_key_nonempty: "fst (filler i) \<noteq> []"
  by (simp add: filler_key)

lemma filler_key_other:
  "fst (filler i) \<noteq> ''{docs,a}''" "fst (filler i) \<noteq> ''{docs,b}''"
  "fst (filler i) \<noteq> ''{docs,z}''"
  by (simp_all add: filler_key)

lemma storedFrom_score:
  "x \<in> set (storedFrom h t n) \<Longrightarrow>
   \<exists>i<n. score (snd x) w = int h * 10000 + (now w - (t + 1 + int i))"
  by (auto simp: storedFrom_def stored_def score_def)

lemma distinctQueries_Suc:
  "distinctQueries (Suc n) = distinctQueries n @ [(1, numbered n)]"
  by (simp add: distinctQueries_def)

lemma warm_Suc:
  "warm (Suc n) = warm n @ [(1, numbered n), (0, numbered n), (0, numbered n)]"
  by (simp add: warm_def)

lemma run_insert_numbered:
  assumes "fst (filler i) \<notin> fst ` set this" and "length this < maxCacheSize"
  shows "run (Cached_query stringify0 (recorded (answering response0))) [(dt, numbered i)]
      (this, (seen, ())) w
    = ([Inr response0],
       (this @ [stored i (now w + dt) 0], (seen @ [Inr response0], ())),
       w\<lparr>now := now w + dt\<rparr>)"
  using assms
    Cached_query_insert [where J = stringify0 and params = "numbered i" and this = this
      and client = "recorded (answering response0)" and s = "(seen, ())" and w = "tick dt w"
      and resp = response0 and s' = "(seen @ [Inr response0], ())" and w' = "tick dt w"]
  by (simp add: key_numbered recorded_answering stored_def tick_def
      del: Cached_query.simps)

lemma run_hit_numbered:
  assumes "fst (filler i) \<notin> fst ` set base" and "now w + dt - t < cacheTimeout"
  shows "run (Cached_query stringify0 client) [(dt, numbered i)]
      (base @ [stored i t h], s) w
    = ([Inr response0], (base @ [stored i t (h + 1)], s), w\<lparr>now := now w + dt\<rparr>)"
  using assms
    Cached_query_hit_last [where J = stringify0 and params = "numbered i"
      and key = "fst (filler i)" and base = base and w = "tick dt w" and client = client
      and s = s and e = "\<lparr>response = response0, timestamp = t, hits = h\<rparr>"]
  by (simp add: key_numbered stored_def tick_def isCacheValid_def
      del: Cached_query.simps)

lemma run_distinctQueries:
  "n \<le> maxCacheSize \<Longrightarrow>
   run (Cached_query stringify0 (recorded (answering response0))) (distinctQueries n)
     ([], (seen, ())) w
   = (replicate n (Inr response0),
      (storedFrom 0 (now w) n, (seen @ replicate n (Inr response0), ())),
      w\<lparr>now := now w + int n\<rparr>)"
proof (induction n)
  case 0
  then show ?case by (simp add: distinctQueries_def storedFrom_def)
next
  case (Suc n)
  then have lt: "length (storedFrom 0 (now w) n) < maxCacheSize" by simp
  from Suc have ih: "run (Cached_query stringify0 (recorded (answering response0)))
      (distinctQueries n) ([], (seen, ())) w
    = (replicate n (Inr response0),
       (storedFrom 0 (now w) n, (seen @ replicate n (Inr response0), ())),
       w\<lparr>now := now w + int n\<rparr>)"
    by simp
  note step = run_insert_numbered [OF filler_not_in_storedFrom [OF order_refl] lt,
      of 1 "seen @ replicate n (Inr response0)" "w\<lparr>now := now w + int n\<rparr>"]
  show ?case
    unfolding distinctQueries_Suc run_append ih prod.case step
    by (simp add: storedFrom_Suc replicate_append_same add.commute add.left_commute)
qed

lemma run_warm:
  "length base + n \<le> maxCacheSize \<Longrightarrow> \<forall>i<n. fst (filler i) \<notin> fst ` set base \<Longrightarrow>
   run (Cached_query stringify0 (recorded (answering response0))) (warm n)
     (base, (seen, ())) w
   = (replicate (3 * n) (Inr response0),
      (base @ storedFrom 2 (now w) n, (seen @ replicate n (Inr response0), ())),
      w\<lparr>now := now w + int n\<rparr>)"
proof (induction n)
  case 0
  then show ?case by (simp add: warm_def storedFrom_def)
next
  case (Suc n)
  let ?Q = "Cached_query stringify0 (recorded (answering response0))"
  let ?w = "w\<lparr>now := now w + int n\<rparr>"
  let ?seen = "seen @ replicate n (Inr response0)"
  let ?cache = "base @ storedFrom 2 (now w) n"
  from Suc have ih: "run ?Q (warm n) (base, (seen, ())) w
    = (replicate (3 * n) (Inr response0), (?cache, (?seen, ())), ?w)"
    by simp
  have new: "fst (filler n) \<notin> fst ` set ?cache"
    using Suc.prems(2) filler_not_in_storedFrom [OF order_refl, of n 2 "now w"] by auto
  have lt: "length ?cache < maxCacheSize" using Suc.prems(1) by simp
  have s1: "run ?Q [(1, numbered n)] (?cache, (?seen, ())) ?w
    = ([Inr response0], (?cache @ [stored n (now ?w + 1) 0], (?seen @ [Inr response0], ())),
       ?w\<lparr>now := now ?w + 1\<rparr>)"
    by (rule run_insert_numbered [OF new lt])
  have s2: "run ?Q [(0, numbered n)] (?cache @ [stored n (now ?w + 1) 0], (?seen @ [Inr response0], ()))
      (?w\<lparr>now := now ?w + 1\<rparr>)
    = ([Inr response0], (?cache @ [stored n (now ?w + 1) 1], (?seen @ [Inr response0], ())),
       ?w\<lparr>now := now ?w + 1\<rparr>)"
    using run_hit_numbered [OF new, of "?w\<lparr>now := now ?w + 1\<rparr>" 0 "now ?w + 1"
        "recorded (answering response0)" 0 "(?seen @ [Inr response0], ())"]
    by (simp add: cacheTimeout_def del: run.simps)
  have s3: "run ?Q [(0, numbered n)] (?cache @ [stored n (now ?w + 1) 1], (?seen @ [Inr response0], ()))
      (?w\<lparr>now := now ?w + 1\<rparr>)
    = ([Inr response0], (?cache @ [stored n (now ?w + 1) 2], (?seen @ [Inr response0], ())),
       ?w\<lparr>now := now ?w + 1\<rparr>)"
    using run_hit_numbered [OF new, of "?w\<lparr>now := now ?w + 1\<rparr>" 0 "now ?w + 1"
        "recorded (answering response0)" 1 "(?seen @ [Inr response0], ())"]
    by (simp add: cacheTimeout_def numeral_2_eq_2 del: run.simps)
  have three: "run ?Q [(1, numbered n), (0, numbered n), (0, numbered n)] (?cache, (?seen, ())) ?w
    = ([Inr response0, Inr response0, Inr response0],
       (?cache @ [stored n (now ?w + 1) 2], (?seen @ [Inr response0], ())),
       ?w\<lparr>now := now ?w + 1\<rparr>)"
    using run_append [of ?Q "[(1, numbered n)]" "[(0, numbered n), (0, numbered n)]"
        "(?cache, (?seen, ()))" ?w]
      run_append [of ?Q "[(0, numbered n)]" "[(0, numbered n)]"
        "(?cache @ [stored n (now ?w + 1) 0], (?seen @ [Inr response0], ()))"
        "?w\<lparr>now := now ?w + 1\<rparr>"]
      s1 s2 s3
    by (simp del: run.simps)
  have r3: "replicate (3 * Suc n) (Inr response0)
      = replicate (3 * n) (Inr response0) @ [Inr response0, Inr response0, Inr response0 :: outcome]"
  proof -
    have "[Inr response0, Inr response0, Inr response0 :: outcome] = replicate 3 (Inr response0)"
      by (simp add: numeral_3_eq_3)
    moreover have "3 * Suc n = 3 * n + 3" by simp
    ultimately show ?thesis by (simp only: replicate_add)
  qed
  show ?case
    unfolding warm_Suc run_append ih prod.case three r3
    by (simp add: storedFrom_Suc replicate_append_same add.commute add.left_commute)
qed


lemma replicate_snoc: "replicate (Suc n) x = replicate n x @ [x]"
  by (simp add: replicate_append_same)

lemma run_churn:
  assumes "99 \<le> i" and "99 \<le> j" and "i \<noteq> j" and "100 \<le> ts"
  shows "run (Cached_query stringify0 (recorded (answering response0))) [(1, numbered i)]
      (storedFrom 0 0 99 @ [stored j ts 0], (seen, ())) w
    = ([Inr response0],
       (storedFrom 0 0 99 @ [stored i (now w + 1) 0], (seen @ [Inr response0], ())),
       w\<lparr>now := now w + 1\<rparr>)"
proof -
  let ?e = "\<lparr>response = response0, timestamp = ts, hits = 0\<rparr>"
  have lo: "\<forall>x \<in> set (storedFrom 0 0 99). score ?e (tick 1 w) < score (snd x) (tick 1 w)"
  proof
    fix x assume "x \<in> set (storedFrom 0 0 99)"
    from storedFrom_score [OF this, of "tick 1 w"] assms(4)
    show "score ?e (tick 1 w) < score (snd x) (tick 1 w)"
      by (auto simp: score_def)
  qed
  have ne: "fst (filler i) \<noteq> fst (filler j)"
    using assms(3) filler_key_inj by blast
  from Cached_query_evict_last [where J = stringify0 and params = "numbered i"
      and key = "fst (filler i)" and base = "storedFrom 0 0 99" and k = "fst (filler j)"
      and e = ?e and w' = "tick 1 w" and w = "tick 1 w"
      and client = "recorded (answering response0)" and s = "(seen, ())"
      and resp = response0 and s' = "(seen @ [Inr response0], ())",
      OF key_numbered filler_not_in_storedFrom [OF assms(1)] ne
        filler_not_in_storedFrom [OF assms(2)] filler_key_nonempty _ lo recorded_answering]
  show ?thesis
    by (simp add: maxCacheSize_def stored_def tick_def del: Cached_query.simps)
qed

lemma run_100:
  "run (Cached_query stringify0 (recorded (answering response0))) (distinctQueries 100)
     ([], ([], ())) world0
   = (replicate 100 (Inr response0),
      (storedFrom 0 0 99 @ [stored 99 100 0], (replicate 100 (Inr response0), ())),
      world0\<lparr>now := 100\<rparr>)"
proof -
  have "storedFrom 0 0 100 = storedFrom 0 0 99 @ [stored 99 100 0]"
    using storedFrom_Suc [of 0 0 99] by simp
  moreover have "now world0 = 0" by (simp add: world0_def)
  ultimately show ?thesis
    using run_distinctQueries [of 100 "[]" world0]
    by (simp add: maxCacheSize_def)
qed

lemma run_101:
  "run (Cached_query stringify0 (recorded (answering response0))) (distinctQueries 101)
     ([], ([], ())) world0
   = (replicate 101 (Inr response0),
      (storedFrom 0 0 99 @ [stored 100 101 0], (replicate 101 (Inr response0), ())),
      world0\<lparr>now := 101\<rparr>)"
proof -
  have d: "distinctQueries 101 = distinctQueries 100 @ [(1, numbered 100)]"
    using distinctQueries_Suc [of 100] by simp
  have r: "replicate 101 (Inr response0 :: outcome) = replicate 100 (Inr response0) @ [Inr response0]"
  proof -
    have "Suc 100 = 101" by simp
    then show ?thesis by (metis replicate_snoc)
  qed
  show ?thesis
    unfolding d run_append run_100 prod.case r
    using run_churn [of 100 99 100 "replicate 100 (Inr response0)" "world0\<lparr>now := 100\<rparr>"]
    by (simp del: run.simps)
qed

lemma run_102:
  "run (Cached_query stringify0 (recorded (answering response0))) (distinctQueries 102)
     ([], ([], ())) world0
   = (replicate 102 (Inr response0),
      (storedFrom 0 0 99 @ [stored 101 102 0], (replicate 102 (Inr response0), ())),
      world0\<lparr>now := 102\<rparr>)"
proof -
  have d: "distinctQueries 102 = distinctQueries 101 @ [(1, numbered 101)]"
    using distinctQueries_Suc [of 101] by simp
  have r: "replicate 102 (Inr response0 :: outcome) = replicate 101 (Inr response0) @ [Inr response0]"
  proof -
    have "Suc 101 = 102" by simp
    then show ?thesis by (metis replicate_snoc)
  qed
  show ?thesis
    unfolding d run_append run_101 prod.case r
    using run_churn [of 101 100 101 "replicate 101 (Inr response0)" "world0\<lparr>now := 101\<rparr>"]
    by (simp del: run.simps)
qed

lemma run_103:
  "run (Cached_query stringify0 (recorded (answering response0)))
     (distinctQueries 102 @ [(1, numbered 100)]) ([], ([], ())) world0
   = (replicate 103 (Inr response0),
      (storedFrom 0 0 99 @ [stored 100 103 0], (replicate 103 (Inr response0), ())),
      world0\<lparr>now := 103\<rparr>)"
proof -
  have r: "replicate 103 (Inr response0 :: outcome) = replicate 102 (Inr response0) @ [Inr response0]"
  proof -
    have "Suc 102 = 103" by simp
    then show ?thesis by (metis replicate_snoc)
  qed
  show ?thesis
    unfolding run_append run_102 prod.case r
    using run_churn [of 100 101 102 "replicate 102 (Inr response0)" "world0\<lparr>now := 102\<rparr>"]
    by (simp del: run.simps)
qed

lemma storedFrom_no_key:
  "\<forall>i. fst (filler i) \<noteq> k \<Longrightarrow> k \<notin> fst ` set (storedFrom h t n)"
  by (auto simp: storedFrom_keys)

lemma storedFrom_distinct: "distinct (map fst (storedFrom h t n))"
proof -
  have "map fst (storedFrom h t n) = map (\<lambda>i. fst (filler i)) [0..<n]"
    by (simp add: storedFrom_def)
  moreover have "inj_on (\<lambda>i. fst (filler i)) (set [0..<n])"
    by (rule inj_onI) (rule filler_key_inj)
  ultimately show ?thesis by (simp add: distinct_map)
qed

lemma warmed_score:
  "x \<in> set (storedFrom 2 300000 98) \<Longrightarrow> 20000 \<le> score (snd x) (world0\<lparr>now := 310000\<rparr>)"
  using storedFrom_score [of x 2 300000 98 "world0\<lparr>now := 310000\<rparr>"] by auto

lemma run_prefixBA:
  "run (Cached_query stringify0 (recorded (answering response0)))
     [(0, paramsB), (290000, paramsA), (10000, paramsB), (0, paramsB)] ([], ([], ())) world0
   = ([Inr response0, Inr response0, Inr response0, Inr response0],
      ([storedB, storedA], ([Inr response0, Inr response0, Inr response0], ())),
      world0\<lparr>now := 300000\<rparr>)"
  by (simp add: keyA keyB Map_get_def Map_set_def updateCache_def maxCacheSize_def
      isCacheValid_def cacheTimeout_def recorded_def answering_def tick_def world0_def
      storedA_def storedB_def)

lemma run_prefixAB:
  "run (Cached_query stringify0 (recorded (answering response0)))
     [(290000, paramsA), (10000, paramsB), (0, paramsB)] ([], ([], ())) world0
   = ([Inr response0, Inr response0, Inr response0],
      ([storedA, storedB], ([Inr response0, Inr response0], ())),
      world0\<lparr>now := 300000\<rparr>)"
  by (simp add: keyA keyB Map_get_def Map_set_def updateCache_def maxCacheSize_def
      isCacheValid_def cacheTimeout_def recorded_def answering_def tick_def world0_def
      storedA_def storedB_def)

lemma log_101:
  "[Inr response0, Inr response0, Inr response0] @ replicate 98 (Inr response0 :: outcome)
     = replicate 101 (Inr response0)"
  "[Inr response0, Inr response0] @ replicate 98 (Inr response0 :: outcome)
     = replicate 100 (Inr response0)"
proof -
  have "[Inr response0, Inr response0, Inr response0 :: outcome] = replicate 3 (Inr response0)"
    "[Inr response0, Inr response0 :: outcome] = replicate 2 (Inr response0)"
    by (simp_all add: numeral_3_eq_3 numeral_2_eq_2)
  moreover have "(101 :: nat) = 3 + 98" "(100 :: nat) = 2 + 98" by simp_all
  ultimately show
    "[Inr response0, Inr response0, Inr response0] @ replicate 98 (Inr response0 :: outcome)
       = replicate 101 (Inr response0)"
    "[Inr response0, Inr response0] @ replicate 98 (Inr response0 :: outcome)
       = replicate 100 (Inr response0)"
    by (simp_all only: replicate_add)
qed

lemma run_callsBA:
  "snd (run (Cached_query stringify0 (recorded (answering response0))) callsBA
     ([], ([], ())) world0)
   = ((cachedBA, (replicate 101 (Inr response0), ())), world0\<lparr>now := 300098\<rparr>)"
proof -
  have "run (Cached_query stringify0 (recorded (answering response0))) (warm 98)
      ([storedB, storedA], ([Inr response0, Inr response0, Inr response0], ()))
      (world0\<lparr>now := 300000\<rparr>)
    = (replicate (3 * 98) (Inr response0),
       ([storedB, storedA] @ storedFrom 2 300000 98,
        ([Inr response0, Inr response0, Inr response0] @ replicate 98 (Inr response0), ())),
       world0\<lparr>now := 300098\<rparr>)"
    using run_warm [of "[storedB, storedA]" 98 "[Inr response0, Inr response0, Inr response0]"
        "world0\<lparr>now := 300000\<rparr>"] filler_key_other
    by (simp add: maxCacheSize_def storedA_def storedB_def del: run.simps)
  then show ?thesis
    unfolding callsBA_def run_append run_prefixBA prod.case log_101
    by (simp add: cachedBA_def)
qed

lemma run_callsAB:
  "snd (run (Cached_query stringify0 (recorded (answering response0))) callsAB
     ([], ([], ())) world0)
   = ((cachedAB, (replicate 100 (Inr response0), ())), world0\<lparr>now := 300098\<rparr>)"
proof -
  have "run (Cached_query stringify0 (recorded (answering response0))) (warm 98)
      ([storedA, storedB], ([Inr response0, Inr response0], ()))
      (world0\<lparr>now := 300000\<rparr>)
    = (replicate (3 * 98) (Inr response0),
       ([storedA, storedB] @ storedFrom 2 300000 98,
        ([Inr response0, Inr response0] @ replicate 98 (Inr response0), ())),
       world0\<lparr>now := 300098\<rparr>)"
    using run_warm [of "[storedA, storedB]" 98 "[Inr response0, Inr response0]"
        "world0\<lparr>now := 300000\<rparr>"] filler_key_other
    by (simp add: maxCacheSize_def storedA_def storedB_def del: run.simps)
  then show ?thesis
    unfolding callsAB_def run_append run_prefixAB prod.case log_101
    by (simp add: cachedAB_def)
qed

lemma evict_cachedBA:
  "Cached_query stringify0 (recorded (answering response0)) paramsZ
     (cachedBA, (seen, ())) (world0\<lparr>now := 310000\<rparr>)
   = (Inr response0,
      (storedA # storedFrom 2 300000 98 @ [entryZ 310000], (seen @ [Inr response0], ())),
      world0\<lparr>now := 310000\<rparr>)"
proof -
  let ?w = "world0\<lparr>now := 310000\<rparr>"
  have lo: "\<forall>x \<in> set (storedA # storedFrom 2 300000 98).
      score \<lparr>response = response0, timestamp = 300000, hits = 1\<rparr> ?w \<le> score (snd x) ?w"
    using warmed_score by (auto simp: score_def storedA_def)
  from Cached_query_evict_head [where J = stringify0 and params = paramsZ
      and key = "''{docs,z}''" and k = "''{docs,b}''"
      and e = "\<lparr>response = response0, timestamp = 300000, hits = 1\<rparr>"
      and rest = "storedA # storedFrom 2 300000 98" and w' = ?w and w = ?w
      and client = "recorded (answering response0)" and s = "(seen, ())"
      and resp = response0 and s' = "(seen @ [Inr response0], ())",
      OF keyZ _ _ _ _ _ lo recorded_answering]
    storedFrom_no_key [of "''{docs,z}''"] storedFrom_no_key [of "''{docs,b}''"]
    filler_key_other
  show ?thesis
    by (simp add: cachedBA_def storedA_def storedB_def entryZ_def maxCacheSize_def world0_def
        del: Cached_query.simps)
qed

lemma evict_cachedAB:
  "Cached_query stringify0 (recorded (answering response0)) paramsZ
     (cachedAB, (seen, ())) (world0\<lparr>now := 310000\<rparr>)
   = (Inr response0,
      (storedB # storedFrom 2 300000 98 @ [entryZ 310000], (seen @ [Inr response0], ())),
      world0\<lparr>now := 310000\<rparr>)"
proof -
  let ?w = "world0\<lparr>now := 310000\<rparr>"
  have lo: "\<forall>x \<in> set (storedB # storedFrom 2 300000 98).
      score \<lparr>response = response0, timestamp = 290000, hits = 0\<rparr> ?w \<le> score (snd x) ?w"
    using warmed_score by (auto simp: score_def storedB_def)
  from Cached_query_evict_head [where J = stringify0 and params = paramsZ
      and key = "''{docs,z}''" and k = "''{docs,a}''"
      and e = "\<lparr>response = response0, timestamp = 290000, hits = 0\<rparr>"
      and rest = "storedB # storedFrom 2 300000 98" and w' = ?w and w = ?w
      and client = "recorded (answering response0)" and s = "(seen, ())"
      and resp = response0 and s' = "(seen @ [Inr response0], ())",
      OF keyZ _ _ _ _ _ lo recorded_answering]
    storedFrom_no_key [of "''{docs,z}''"] storedFrom_no_key [of "''{docs,a}''"]
    filler_key_other
  show ?thesis
    by (simp add: cachedAB_def storedA_def storedB_def entryZ_def maxCacheSize_def world0_def
        del: Cached_query.simps)
qed

lemma run_then_Z:
  assumes "snd (run (Cached_query stringify0 (recorded (answering response0))) calls
      ([], ([], ())) world0) = ((this, (seen, ())), world0\<lparr>now := 300098\<rparr>)"
    and "Cached_query stringify0 (recorded (answering response0)) paramsZ
      (this, (seen, ())) (world0\<lparr>now := 310000\<rparr>) = (r, st, w')"
  shows "snd (run (Cached_query stringify0 (recorded (answering response0)))
      (calls @ [(9902, paramsZ)]) ([], ([], ())) world0) = (st, w')"
proof -
  obtain outs where "run (Cached_query stringify0 (recorded (answering response0))) calls
      ([], ([], ())) world0 = (outs, (this, (seen, ())), world0\<lparr>now := 300098\<rparr>)"
    using assms(1) by (cases "run (Cached_query stringify0 (recorded (answering response0))) calls
      ([], ([], ())) world0") simp
  moreover have "tick 9902 (world0\<lparr>now := 300098\<rparr>) = world0\<lparr>now := 310000\<rparr>"
    by (simp add: tick_def)
  ultimately show ?thesis
    using assms(2) by (simp add: run_append del: Cached_query.simps)
qed

lemma cachedBA_ok:
  "length cachedBA = maxCacheSize" "distinct (map fst cachedBA)" "[] \<notin> fst ` set cachedBA"
  "Map_get cachedBA ''{docs,z}'' = None"
  using storedFrom_no_key [of "''{docs,z}''" 2 300000 98]
    storedFrom_no_key [of "''{docs,a}''" 2 300000 98]
    storedFrom_no_key [of "''{docs,b}''" 2 300000 98]
    storedFrom_no_key [of "[]" 2 300000 98] filler_key_other filler_key_nonempty
  by (simp_all add: cachedBA_def storedA_def storedB_def maxCacheSize_def storedFrom_distinct
      Map_get_None_key)

text \<open>
  A run from the empty cache that ends in such an eviction. The request b is answered
  at time 0 and a at 290000; at 300000 the entry of b has expired, b is fetched again and
  its entry is overwritten in place, then hit once; 98 more requests are each answered
  and hit twice; at 310000 the cache holds 100 entries and the request z is answered.
  The entries of b (one hit, stored at 300000) and a (no hit, stored at 290000) both have
  the lowest score 20000: the entry of b, first in the insertion order, is the one lost.
\<close>

theorem eviction_first_lowest_score_witness:
  "snd (run (Cached_query stringify0 (recorded (answering response0))) callsBA
       ([], ([], ())) world0)
     = ((cachedBA, (replicate 101 (Inr response0), ())), world0\<lparr>now := 300098\<rparr>)
   \<and> Cached_query stringify0 (recorded (answering response0)) paramsZ
       (cachedBA, (replicate 101 (Inr response0), ())) (tick 9902 (world0\<lparr>now := 300098\<rparr>))
     = (Inr response0,
        (storedA # storedFrom 2 300000 98 @ [entryZ 310000],
         (replicate 101 (Inr response0) @ [Inr response0], ())),
        world0\<lparr>now := 310000\<rparr>)"
proof
  show "snd (run (Cached_query stringify0 (recorded (answering response0))) callsBA
       ([], ([], ())) world0)
     = ((cachedBA, (replicate 101 (Inr response0), ())), world0\<lparr>now := 300098\<rparr>)"
    by (rule run_callsBA)
next
  let ?w = "world0\<lparr>now := 310000\<rparr>"
  let ?seen = "replicate 101 (Inr response0 :: outcome)"
  have t: "tick 9902 (world0\<lparr>now := 300098\<rparr>) = ?w" by (simp add: tick_def)
  have hyp: "maxCacheSize \<le> length cachedBA" "distinct (map fst cachedBA)"
    "[] \<notin> fst ` set cachedBA" "Map_get cachedBA (getCacheKey stringify0 paramsZ) = None"
    "recorded (answering response0) paramsZ (?seen, ()) ?w
       = (Inr response0, (?seen @ [Inr response0], ()), ?w)"
    using cachedBA_ok by (simp_all add: keyZ recorded_answering)
  from hyp eviction_first_lowest_score [where this = cachedBA and J = stringify0
      and params = paramsZ and client = "recorded (answering response0)"
      and s = "(?seen, ())" and w = ?w
      and resp = response0 and s' = "(?seen @ [Inr response0], ())" and w' = ?w]
  obtain pre k e post where
    d: "cachedBA = pre @ (k, e) # post"
    and lo: "\<forall>x \<in> set pre. score e ?w < score (snd x) ?w"
    and q: "Cached_query stringify0 (recorded (answering response0)) paramsZ
          (cachedBA, (?seen, ())) ?w
         = (Inr response0,
            (pre @ post @ [(getCacheKey stringify0 paramsZ,
               \<lparr>response = response0, timestamp = now ?w, hits = 0\<rparr>)],
             (?seen @ [Inr response0], ())),
            ?w)"
    by blast
  have low: "\<forall>x \<in> set cachedBA. 20000 \<le> score (snd x) ?w"
    using warmed_score by (auto simp: cachedBA_def storedA_def storedB_def score_def)
  have "pre = []"
  proof (rule ccontr)
    assume "pre \<noteq> []"
    then obtain y ys where p: "pre = y # ys" by (cases pre) auto
    with d have "y = storedB" by (simp add: cachedBA_def)
    with p lo have "score e ?w < score (snd storedB) ?w" by simp
    moreover have "(k, e) \<in> set cachedBA" by (simp add: d)
    with low have "20000 \<le> score e ?w" by force
    ultimately show False by (simp add: storedB_def score_def world0_def)
  qed
  with d have "post = storedA # storedFrom 2 300000 98" by (simp add: cachedBA_def)
  with q \<open>pre = []\<close> show "Cached_query stringify0 (recorded (answering response0)) paramsZ
       (cachedBA, (?seen, ())) (tick 9902 (world0\<lparr>now := 300098\<rparr>))
     = (Inr response0,
        (storedA # storedFrom 2 300000 98 @ [entryZ 310000], (?seen @ [Inr response0], ())),
        world0\<lparr>now := 310000\<rparr>)"
    unfolding t by (simp add: keyZ entryZ_def world0_def del: Cached_query.simps)
qed

text \<open>
  C6 as stated fails on the tie-break. Two runs from the empty cache differ only in that
  the first one starts with one more request b at time 0, so that the key of b is
  inserted before that of a. In both, the caches before the request z at 310000 hold the
  same 100 entries, and the entries of a (stored at 290000, no hit) and b (stored at
  300000, one hit) tie at the lowest score 20000. The first run loses the more recently
  stored entry, b; the second the older one, a: recency does not decide, the insertion
  order of the keys does.
\<close>

theorem eviction_tie_counterexample:
  "snd (run (Cached_query stringify0 (recorded (answering response0)))
      (callsBA @ [(9902, paramsZ)]) ([], ([], ())) world0)
     = ((storedA # storedFrom 2 300000 98 @ [entryZ 310000],
         (replicate 102 (Inr response0), ())), world0\<lparr>now := 310000\<rparr>)
   \<and> snd (run (Cached_query stringify0 (recorded (answering response0)))
      (callsAB @ [(9902, paramsZ)]) ([], ([], ())) world0)
     = ((storedB # storedFrom 2 300000 98 @ [entryZ 310000],
         (replicate 101 (Inr response0), ())), world0\<lparr>now := 310000\<rparr>)
   \<and> snd (run (Cached_query stringify0 (recorded (answering response0))) callsBA
       ([], ([], ())) world0)
     = ((cachedBA, (replicate 101 (Inr response0), ())), world0\<lparr>now := 300098\<rparr>)
   \<and> snd (run (Cached_query stringify0 (recorded (answering response0))) callsAB
       ([], ([], ())) world0)
     = ((cachedAB, (replicate 100 (Inr response0), ())), world0\<lparr>now := 300098\<rparr>)
   \<and> set cachedBA = set cachedAB
   \<and> score (snd storedA) (world0\<lparr>now := 310000\<rparr>) = score (snd storedB) (world0\<lparr>now := 310000\<rparr>)
   \<and> timestamp (snd storedA) < timestamp (snd storedB)"
proof (intro conjI)
  have r: "replicate 101 (Inr response0 :: outcome) @ [Inr response0] = replicate 102 (Inr response0)"
    "replicate 100 (Inr response0 :: outcome) @ [Inr response0] = replicate 101 (Inr response0)"
    using replicate_snoc [of 101 "Inr response0 :: outcome"]
      replicate_snoc [of 100 "Inr response0 :: outcome"]
    by (simp_all only: Suc_numeral) simp_all
  show "snd (run (Cached_query stringify0 (recorded (answering response0)))
      (callsBA @ [(9902, paramsZ)]) ([], ([], ())) world0)
     = ((storedA # storedFrom 2 300000 98 @ [entryZ 310000],
         (replicate 102 (Inr response0), ())), world0\<lparr>now := 310000\<rparr>)"
    using run_then_Z [OF run_callsBA evict_cachedBA] by (simp only: r)
  show "snd (run (Cached_query stringify0 (recorded (answering response0)))
      (callsAB @ [(9902, paramsZ)]) ([], ([], ())) world0)
     = ((storedB # storedFrom 2 300000 98 @ [entryZ 310000],
         (replicate 101 (Inr response0), ())), world0\<lparr>now := 310000\<rparr>)"
    using run_then_Z [OF run_callsAB evict_cachedAB] by (simp only: r)
  show "snd (run (Cached_query stringify0 (recorded (answering response0))) callsBA
       ([], ([], ())) world0)
     = ((cachedBA, (replicate 101 (Inr response0), ())), world0\<lparr>now := 300098\<rparr>)"
    by (rule run_callsBA)
  show "snd (run (Cached_query stringify0 (recorded (answering response0))) callsAB
       ([], ([], ())) world0)
     = ((cachedAB, (replicate 100 (Inr response0), ())), world0\<lparr>now := 300098\<rparr>)"
    by (rule run_callsAB)
  show "set cachedBA = set cachedAB"
    by (auto simp: cachedAB_def cachedBA_def)
  show "score (snd storedA) (world0\<lparr>now := 310000\<rparr>) = score (snd storedB) (world0\<lparr>now := 310000\<rparr>)"
    by (simp add: score_def storedA_def storedB_def)
  show "timestamp (snd storedA) < timestamp (snd storedB)"
    by (simp add: storedA_def storedB_def)
qed

lemma Map_get_Map_set_other: "k \<noteq> k2 \<Longrightarrow> Map_get (Map_set m k2 v) k = Map_get m k"
proof -
  assume ne: "k \<noteq> k2"
  have "map_of (map (\<lambda>(k', x). if k' = k2 then (k', v) else (k', x)) m) k = map_of m k"
    using ne by (induction m) auto
  then show ?thesis
    using ne by (auto simp: Map_get_def Map_set_def map_add_def split: option.splits)
qed

lemma Map_get_Map_delete:
  "Map_get (Map_delete m l) k = (if k = l then None else Map_get m k)"
  unfolding Map_get_def Map_delete_def by (induction m) auto

lemma updateCache_keeps:
  "key \<noteq> held \<Longrightarrow>
   Map_get (updateCache key resp this w) held
     = (if maxCacheSize \<le> length this \<and> findLRUKey this w = Some held \<and> held \<noteq> []
        then None else Map_get this held)"
  by (auto simp: updateCache_def Let_def Map_get_Map_set_other Map_get_Map_delete
      split: option.splits)

lemma updateCache_stores:
  "Map_get (updateCache key resp this w) key
     = Some \<lparr>response = resp, timestamp = now w, hits = 0\<rparr>"
  by (simp add: updateCache_def Let_def Map_get_Map_set)

text \<open>
  C5, as the code has it. (1) A query whose key is not in the cache, or whose entry has
  expired, and which the inner client answers at time \<open>T\<close>, leaves under the key the
  response with \<open>timestamp = T\<close> and no hit. (2) While the cache holds, under the key
  of the request, an entry stored at \<open>timestamp cached\<close>, a query at a time strictly
  before \<open>timestamp + cacheTimeout\<close> returns the stored response, leaves the world and
  the inner client untouched (its recorded outcomes stay the same) and stores the entry
  again with \<open>hits\<close> increased by one. (3) A query at or after
  \<open>timestamp + cacheTimeout\<close> invokes the inner client once and returns what it
  returns. (4) A query for another key leaves the entry as it is, unless the cache is
  at capacity and the entry is the one \<^verbatim>\<open>findLRUKey\<close> selects: then it is gone.
\<close>

theorem cache_hit_before_expiry:
  "((Map_get this (getCacheKey J params) = None
       \<or> (Map_get this (getCacheKey J params) = Some cached
            \<and> timestamp cached + cacheTimeout \<le> now w))
      \<and> client params s w = (Inr resp, s', w')
    \<longrightarrow> (\<exists>this'. Cached_query J (recorded client) params (this, (seen, s)) w
            = (Inr resp, (this', (seen @ [Inr resp], s')), w')
          \<and> Map_get this' (getCacheKey J params)
              = Some \<lparr>response = resp, timestamp = now w', hits = 0\<rparr>))
   \<and> (Map_get this (getCacheKey J params) = Some cached
        \<and> now w < timestamp cached + cacheTimeout
      \<longrightarrow> Cached_query J (recorded client) params (this, (seen, s)) w
          = (Inr (response cached),
             (Map_set this (getCacheKey J params) (cached\<lparr>hits := hits cached + 1\<rparr>), (seen, s)),
             w)
        \<and> Map_get (Map_set this (getCacheKey J params) (cached\<lparr>hits := hits cached + 1\<rparr>))
             (getCacheKey J params) = Some (cached\<lparr>hits := hits cached + 1\<rparr>))
   \<and> (Map_get this (getCacheKey J params) = Some cached
        \<and> timestamp cached + cacheTimeout \<le> now w
      \<longrightarrow> (\<exists>r this' s' w'. client params s w = (r, s', w')
             \<and> Cached_query J (recorded client) params (this, (seen, s)) w
                 = (r, (this', (seen @ [r], s')), w')))
   \<and> (Map_get this held = Some kept \<and> getCacheKey J params \<noteq> held
      \<longrightarrow> Map_get (fst (fst (snd (Cached_query J client params (this, s) w)))) held = Some kept
        \<or> (maxCacheSize \<le> length this
            \<and> findLRUKey this (snd (snd (Cached_query J client params (this, s) w))) = Some held
            \<and> Map_get (fst (fst (snd (Cached_query J client params (this, s) w)))) held = None))"
proof (intro conjI impI)
  assume a: "(Map_get this (getCacheKey J params) = None
       \<or> (Map_get this (getCacheKey J params) = Some cached
            \<and> timestamp cached + cacheTimeout \<le> now w))
      \<and> client params s w = (Inr resp, s', w')"
  then have rc: "recorded client params (seen, s) w = (Inr resp, (seen @ [Inr resp], s'), w')"
    by (simp add: recorded_def)
  from a have "Cached_query J (recorded client) params (this, (seen, s)) w
      = (Inr resp, (updateCache (getCacheKey J params) resp this w', (seen @ [Inr resp], s')), w')"
    using rc by (auto simp: isCacheValid_def)
  then show "\<exists>this'. Cached_query J (recorded client) params (this, (seen, s)) w
            = (Inr resp, (this', (seen @ [Inr resp], s')), w')
          \<and> Map_get this' (getCacheKey J params)
              = Some \<lparr>response = resp, timestamp = now w', hits = 0\<rparr>"
    using updateCache_stores by blast
next
  assume "Map_get this (getCacheKey J params) = Some cached
        \<and> now w < timestamp cached + cacheTimeout"
  then have g: "Map_get this (getCacheKey J params) = Some cached"
    and "isCacheValid cached w" by (simp_all add: isCacheValid_def)
  then show "Cached_query J (recorded client) params (this, (seen, s)) w
          = (Inr (response cached),
             (Map_set this (getCacheKey J params) (cached\<lparr>hits := hits cached + 1\<rparr>), (seen, s)),
             w)"
    by simp
next
  show "Map_get (Map_set this (getCacheKey J params) (cached\<lparr>hits := hits cached + 1\<rparr>))
             (getCacheKey J params) = Some (cached\<lparr>hits := hits cached + 1\<rparr>)"
    by (rule Map_get_Map_set)
next
  assume "Map_get this (getCacheKey J params) = Some cached
        \<and> timestamp cached + cacheTimeout \<le> now w"
  then have g: "Map_get this (getCacheKey J params) = Some cached"
    and v: "\<not> isCacheValid cached w" by (simp_all add: isCacheValid_def)
  obtain r s' w' where c: "client params s w = (r, s', w')"
    by (cases "client params s w")
  have rc: "recorded client params (seen, s) w = (r, (seen @ [r], s'), w')"
    using c by (simp add: recorded_def)
  show "\<exists>r this' s' w'. client params s w = (r, s', w')
             \<and> Cached_query J (recorded client) params (this, (seen, s)) w
                 = (r, (this', (seen @ [r], s')), w')"
    using g v c rc by (cases r) simp_all
next
  assume a: "Map_get this held = Some kept \<and> getCacheKey J params \<noteq> held"
  let ?key = "getCacheKey J params"
  let ?res = "Cached_query J client params (this, s) w"
  obtain r s' w' where c: "client params s w = (r, s', w')"
    by (cases "client params s w")
  consider (hit) cached2 where "Map_get this ?key = Some cached2" "isCacheValid cached2 w"
    | (miss) "Map_get this ?key = None
        \<or> (\<exists>cached2. Map_get this ?key = Some cached2 \<and> \<not> isCacheValid cached2 w)"
    by (cases "Map_get this ?key") auto
  then show "Map_get (fst (fst (snd ?res))) held = Some kept
        \<or> (maxCacheSize \<le> length this
            \<and> findLRUKey this (snd (snd ?res)) = Some held
            \<and> Map_get (fst (fst (snd ?res))) held = None)"
  proof cases
    case hit
    then have "fst (fst (snd ?res)) = Map_set this ?key (cached2\<lparr>hits := hits cached2 + 1\<rparr>)"
      by simp
    moreover from a have "held \<noteq> ?key" by auto
    ultimately show ?thesis
      using a by (simp add: Map_get_Map_set_other del: Cached_query.simps)
  next
    case miss
    show ?thesis
    proof (cases r)
      case (Inl e)
      with miss c have "fst (fst (snd ?res)) = this" by auto
      with a show ?thesis by (simp del: Cached_query.simps)
    next
      case (Inr resp)
      with miss c have "fst (fst (snd ?res)) = updateCache ?key resp this w'"
        and "snd (snd ?res) = w'"
        by auto
      with a updateCache_keeps [of ?key held resp this w'] show ?thesis
        by (auto simp del: Cached_query.simps split: if_splits)
    qed
  qed
qed

lemma key0: "getCacheKey stringify0 params0 = ''{docs,how do i get started?}''"
  by (simp add: getCacheKey_def stringify0_def params0_def toLowerCase_def trim_def isSpace_def)

text \<open>
  A query on the new cache at time 7; the cache of that one entry, stored at time 0,
  queried again 299999 ms and 300000 ms later with an inner client that fails; and a
  query for another key.
\<close>

theorem cache_hit_before_expiry_witness:
  "(\<exists>this'. Cached_query stringify0 (recorded (answering response0)) params0
        (new_CachedVantigeClient, ([], ())) (world0\<lparr>now := 7\<rparr>)
      = (Inr response0, (this', ([Inr response0], ())), world0\<lparr>now := 7\<rparr>)
      \<and> Map_get this' (getCacheKey stringify0 params0)
          = Some \<lparr>response = response0, timestamp = 7, hits = 0\<rparr>)
   \<and> Cached_query stringify0 (recorded (failing unavailable)) params0 (cache1, ([], ()))
       (world0\<lparr>now := 299999\<rparr>)
     = (Inr response0,
        ([(getCacheKey stringify0 params0, \<lparr>response = response0, timestamp = 0, hits = 1\<rparr>)],
         ([], ())),
        world0\<lparr>now := 299999\<rparr>)
   \<and> (\<exists>this'. Cached_query stringify0 (recorded (failing unavailable)) params0 (cache1, ([], ()))
          (world0\<lparr>now := 300000\<rparr>)
        = (Inl unavailable, (this', ([Inl unavailable], ())), world0\<lparr>now := 300000\<rparr>))
   \<and> Map_get (fst (fst (snd (Cached_query stringify0 (answering response0) paramsZ
          (cache1, ()) world0)))) (getCacheKey stringify0 params0)
     = Some \<lparr>response = response0, timestamp = 0, hits = 0\<rparr>"
proof (intro conjI)
  show "\<exists>this'. Cached_query stringify0 (recorded (answering response0)) params0
        (new_CachedVantigeClient, ([], ())) (world0\<lparr>now := 7\<rparr>)
      = (Inr response0, (this', ([Inr response0], ())), world0\<lparr>now := 7\<rparr>)
      \<and> Map_get this' (getCacheKey stringify0 params0)
          = Some \<lparr>response = response0, timestamp = 7, hits = 0\<rparr>"
    using cache_hit_before_expiry [where this = new_CachedVantigeClient and J = stringify0
        and params = params0 and w = "world0\<lparr>now := 7\<rparr>" and client = "answering response0"
        and seen = "[]" and s = "()" and resp = response0 and s' = "()"
        and w' = "world0\<lparr>now := 7\<rparr>", THEN conjunct1]
    by (simp add: new_CachedVantigeClient_def Map_get_def answering_def world0_def
        del: Cached_query.simps)
next
  show "Cached_query stringify0 (recorded (failing unavailable)) params0 (cache1, ([], ()))
       (world0\<lparr>now := 299999\<rparr>)
     = (Inr response0,
        ([(getCacheKey stringify0 params0, \<lparr>response = response0, timestamp = 0, hits = 1\<rparr>)],
         ([], ())),
        world0\<lparr>now := 299999\<rparr>)"
    using cache_hit_before_expiry [where this = cache1 and J = stringify0 and params = params0
        and cached = "\<lparr>response = response0, timestamp = 0, hits = 0\<rparr>"
        and w = "world0\<lparr>now := 299999\<rparr>" and client = "failing unavailable"
        and seen = "[]" and s = "()"]
    by (simp add: cache1_def Map_get_def Map_set_def cacheTimeout_def world0_def failing_def)
next
  show "\<exists>this'. Cached_query stringify0 (recorded (failing unavailable)) params0 (cache1, ([], ()))
          (world0\<lparr>now := 300000\<rparr>)
        = (Inl unavailable, (this', ([Inl unavailable], ())), world0\<lparr>now := 300000\<rparr>)"
    using cache_hit_before_expiry [where this = cache1 and J = stringify0 and params = params0
        and cached = "\<lparr>response = response0, timestamp = 0, hits = 0\<rparr>"
        and w = "world0\<lparr>now := 300000\<rparr>" and client = "failing unavailable"
        and seen = "[]" and s = "()"]
    by (simp add: cache1_def Map_get_def Map_set_def cacheTimeout_def world0_def failing_def)
next
  have k: "getCacheKey stringify0 paramsZ \<noteq> getCacheKey stringify0 params0"
    by (simp add: keyZ key0)
  have g: "Map_get cache1 (getCacheKey stringify0 params0)
      = Some \<lparr>response = response0, timestamp = 0, hits = 0\<rparr>"
    by (simp add: cache1_def Map_get_def)
  have l: "\<not> maxCacheSize \<le> length cache1"
    by (simp add: cache1_def maxCacheSize_def)
  from k g l cache_hit_before_expiry [where this = cache1 and J = stringify0
      and params = paramsZ and held = "getCacheKey stringify0 params0"
      and kept = "\<lparr>response = response0, timestamp = 0, hits = 0\<rparr>"
      and client = "answering response0" and s = "()" and w = world0]
  show "Map_get (fst (fst (snd (Cached_query stringify0 (answering response0) paramsZ
          (cache1, ()) world0)))) (getCacheKey stringify0 params0)
     = Some \<lparr>response = response0, timestamp = 0, hits = 0\<rparr>"
    by blast
qed

text \<open>
  C5 as stated fails when the entry is evicted before it expires. From the empty cache,
  102 distinct requests are answered one millisecond apart, then the 101st is sent
  again. The 101st request is answered and stored at time 101; the 102nd insertion, at
  time 102, finds the cache at capacity and evicts that entry, the youngest one having
  the lowest score; at time 103, long before \<open>101 + cacheTimeout\<close>, the 101st request
  is not in the cache and the inner client is invoked for the 103rd time.
\<close>

theorem cache_miss_before_expiry_counterexample:
  "run (Cached_query stringify0 (recorded (answering response0))) (distinctQueries 101)
     ([], ([], ())) world0
   = (replicate 101 (Inr response0),
      (storedFrom 0 0 99 @ [stored 100 101 0], (replicate 101 (Inr response0), ())),
      world0\<lparr>now := 101\<rparr>)
   \<and> Map_get (storedFrom 0 0 99 @ [stored 100 101 0]) (getCacheKey stringify0 (numbered 100))
     = Some \<lparr>response = response0, timestamp = 101, hits = 0\<rparr>
   \<and> run (Cached_query stringify0 (recorded (answering response0))) (distinctQueries 102)
     ([], ([], ())) world0
   = (replicate 102 (Inr response0),
      (storedFrom 0 0 99 @ [stored 101 102 0], (replicate 102 (Inr response0), ())),
      world0\<lparr>now := 102\<rparr>)
   \<and> run (Cached_query stringify0 (recorded (answering response0)))
     (distinctQueries 102 @ [(1, numbered 100)]) ([], ([], ())) world0
   = (replicate 103 (Inr response0),
      (storedFrom 0 0 99 @ [stored 100 103 0], (replicate 103 (Inr response0), ())),
      world0\<lparr>now := 103\<rparr>)
   \<and> 103 < 101 + cacheTimeout"
proof (intro conjI)
  show "Map_get (storedFrom 0 0 99 @ [stored 100 101 0]) (getCacheKey stringify0 (numbered 100))
     = Some \<lparr>response = response0, timestamp = 101, hits = 0\<rparr>"
    using Map_get_last [OF filler_not_in_storedFrom [of 99 100 0 0]]
    by (simp add: key_numbered stored_def)
  show "103 < 101 + cacheTimeout"
    by (simp add: cacheTimeout_def)
qed (rule run_101 run_102 run_103)+

text \<open>
  C10. When \<^verbatim>\<open>JSON.stringify\<close> never yields the empty string: after any sequence of
  queries on a new cache the cache holds at most \<open>maxCacheSize = 100\<close> entries, and every
  single query (hit, insertion, overwrite, failed inner call) keeps a cache within the bound,
  with distinct and non-empty keys. And a cache at capacity whose entry for the incoming
  key has expired, when the lowest-score entry is another one, ends with
  \<open>maxCacheSize - 1\<close> entries: the eviction happens although the key is present.
\<close>

theorem cache_size_bounded:
  "((\<forall>p. J p \<noteq> []) \<longrightarrow>
      length (fst (fst (snd (run (Cached_query J client) calls (new_CachedVantigeClient, s) w))))
        \<le> maxCacheSize)
   \<and> ((\<forall>p. J p \<noteq> []) \<and> cache_ok this \<longrightarrow>
        cache_ok (fst (fst (snd (Cached_query J client params (this, s) w)))))
   \<and> (cache_ok this \<and> length this = maxCacheSize
        \<and> Map_get this (getCacheKey J params) = Some cached \<and> \<not> isCacheValid cached w
        \<and> client params s w = (Inr resp, s', w')
        \<and> findLRUKey this w' \<noteq> Some (getCacheKey J params)
      \<longrightarrow> length (fst (fst (snd (Cached_query J client params (this, s) w)))) = maxCacheSize - 1)
   \<and> maxCacheSize = 100"
proof (intro conjI impI)
  assume J: "\<forall>p. J p \<noteq> []"
  obtain outs this' s' w' where
    r: "run (Cached_query J client) calls (new_CachedVantigeClient, s) w = (outs, (this', s'), w')"
    by (metis prod.exhaust)
  have "cache_ok new_CachedVantigeClient"
    by (simp add: cache_ok_def new_CachedVantigeClient_def)
  from run_Cached_query_inv [OF J this r] have "cache_ok this'" .
  then show "length (fst (fst (snd (run (Cached_query J client) calls
      (new_CachedVantigeClient, s) w)))) \<le> maxCacheSize"
    by (simp add: r cache_ok_def)
next
  assume a: "(\<forall>p. J p \<noteq> []) \<and> cache_ok this"
  obtain r this' s' w' where
    q: "Cached_query J client params (this, s) w = (r, (this', s'), w')"
    by (metis prod.exhaust)
  from a Cached_query_inv [OF _ _ q] have "cache_ok this'" by blast
  then show "cache_ok (fst (fst (snd (Cached_query J client params (this, s) w))))"
    by (simp only: q fst_conv snd_conv)
next
  let ?key = "getCacheKey J params"
  assume a: "cache_ok this \<and> length this = maxCacheSize
        \<and> Map_get this ?key = Some cached \<and> \<not> isCacheValid cached w
        \<and> client params s w = (Inr resp, s', w')
        \<and> findLRUKey this w' \<noteq> Some ?key"
  then have ok: "maxCacheSize \<le> length this" "distinct (map fst this)" "[] \<notin> fst ` set this"
    by (simp_all add: cache_ok_def)
  from a maxCacheSize_pos have ne: "this \<noteq> []" by auto
  from findLRUKey_first_min [OF ne, of w'] obtain pre k e post where
    d: "this = pre @ (k, e) # post" and f: "findLRUKey this w' = Some k"
    by blast
  have "k \<in> fst ` set this" by (simp add: d)
  with ok(3) have kne: "k \<noteq> []" by metis
  have del: "Map_delete this k = pre @ post"
    using ok(2) unfolding d by (rule Map_delete_distinct)
  have u: "updateCache ?key resp this w'
      = Map_set (pre @ post) ?key \<lparr>response = resp, timestamp = now w', hits = 0\<rparr>"
    using ok(1) f kne del by (simp add: updateCache_def)
  from a f have "?key \<noteq> k" by auto
  moreover from a have "?key \<in> fst ` set this" by (blast dest: Map_get_Some_key)
  ultimately have kin: "?key \<in> fst ` set (pre @ post)" by (auto simp: d)
  have "length (updateCache ?key resp this w') = length (pre @ post)"
    unfolding u by (rule Map_set_length_present [OF kin])
  also have "\<dots> = maxCacheSize - 1"
  proof -
    from a have "length this = maxCacheSize" by simp
    then show ?thesis by (simp add: d)
  qed
  finally show "length (fst (fst (snd (Cached_query J client params (this, s) w))))
      = maxCacheSize - 1"
    using a by simp
next
  show "maxCacheSize = 100" by (simp add: maxCacheSize_def)
qed

theorem cache_size_bounded_witness:
  "length (fst (fst (snd (run (Cached_query stringify0 (answering response0)) calls3
      (new_CachedVantigeClient, ()) world0)))) \<le> 100
   \<and> cache_ok (fst (fst (snd (Cached_query stringify0 (answering response0) paramsZ
        (cacheAB, ()) (world0\<lparr>now := 20000\<rparr>)))))
   \<and> length (fst (fst (snd (Cached_query stringify0 (answering response0) paramsB
        (cacheAB, ()) (world0\<lparr>now := 400000\<rparr>))))) = 99"
proof -
  have J: "\<forall>p. stringify0 p \<noteq> []" by (simp add: stringify0_def)
  have ok: "cache_ok cacheAB" using cacheAB_ok(1-3) by (simp add: cache_ok_def)
  have g: "Map_get cacheAB (getCacheKey stringify0 paramsB) = Some (snd entryB)"
    by (simp add: keyB Map_get_def cacheAB_def entryA_def entryB_def)
  have v: "\<not> isCacheValid (snd entryB) (world0\<lparr>now := 400000\<rparr>)"
    by (simp add: isCacheValid_def entryB_def cacheTimeout_def)
  have c: "answering response0 paramsB () (world0\<lparr>now := 400000\<rparr>)
      = (Inr response0, (), world0\<lparr>now := 400000\<rparr>)"
    by (simp add: answering_def)
  have f: "findLRUKey cacheAB (world0\<lparr>now := 400000\<rparr>) \<noteq> Some (getCacheKey stringify0 paramsB)"
    by (simp add: findLRUKey_cacheAB keyB)
  have p1: "length (fst (fst (snd (run (Cached_query stringify0 (answering response0)) calls3
      (new_CachedVantigeClient, ()) world0)))) \<le> maxCacheSize"
    using cache_size_bounded [where J = stringify0 and client = "answering response0"
        and calls = calls3 and s = "()" and w = world0] J
    by blast
  have p2: "cache_ok (fst (fst (snd (Cached_query stringify0 (answering response0) paramsZ
        (cacheAB, ()) (world0\<lparr>now := 20000\<rparr>)))))"
    using cache_size_bounded [where J = stringify0 and client = "answering response0"
        and this = cacheAB and params = paramsZ and s = "()" and w = "world0\<lparr>now := 20000\<rparr>"]
      J ok
    by blast
  have p3: "length (fst (fst (snd (Cached_query stringify0 (answering response0) paramsB
        (cacheAB, ()) (world0\<lparr>now := 400000\<rparr>))))) = maxCacheSize - 1"
    using cache_size_bounded [where J = stringify0 and client = "answering response0"
        and this = cacheAB and params = paramsB and s = "()" and w = "world0\<lparr>now := 400000\<rparr>"
        and cached = "snd entryB" and resp = response0 and s' = "()"
        and w' = "world0\<lparr>now := 400000\<rparr>"]
      ok g v c f cacheAB_ok(1)
    by blast
  from p1 p2 p3 show ?thesis
    unfolding maxCacheSize_def by (simp del: Cached_query.simps run.simps)
qed

section \<open>Properties of the wiring\<close>

lemma retry_success:
  "client params s w = (Inr r, s', w') \<Longrightarrow>
   retryableClient client params s w = (Inr r, s', w')"
  unfolding retryableClient_def Retryable_query_def
  by (subst query_loop.simps)
    (simp add: new_RetryableVantigeClient_def builtinRetryOptions_def spread_def noOptions_def
      attemptAllowed_def)

lemma monitored_failure:
  assumes "client params s w = (Inl e, s', w')"
  shows "\<exists>this' w''. Monitored_query client params (this, s) w = (Inl e, (this', s'), w'')
      \<and> requests this' = requests this + 1"
  using assms by (cases e) (simp_all add: Let_def recordError_fields)

lemma wired_failure_path:
  assumes fail: "\<forall>t v. \<exists>e t' v'. vantigeClient params t v = (Inl e, t', v')
      \<and> isRetryable e (retryableErrors builtinRetryOptions)"
    and miss: "Map_get c (getCacheKey J params) = None"
    and closed: "state b = CLOSED"
  shows "\<exists>e m' b' new s' w'.
      cachedClient J (recorded vantigeClient) params (c, m, b, (seen, s)) w
        = (Inl e, (c, m', b', (seen @ new, s')), w')
      \<and> length new = 4 \<and> requests m' = requests m + 1 \<and> failures b' = failures b + 1"
proof -
  from fail query_loop_exhaust [where client = vantigeClient and params = params
      and opts = builtinRetryOptions and attempt = 0 and lerr = None and seen = seen
      and m = 3 and s = s and w = w and n = 3]
  obtain e new s' w' where
    r: "retryableClient (recorded vantigeClient) params (seen, s) w = (Inl e, (seen @ new, s'), w')"
    and n: "length new = 4"
    by (auto simp: retryableClient_def Retryable_query_def new_RetryableVantigeClient_def
        builtinRetryOptions_def)
  have b: "circuitBreakerClient (recorded vantigeClient) params (b, (seen, s)) w
      = (Inl e, (onFailure e b w', (seen @ new, s')), w')"
    using closed r by (simp add: circuitBreakerClient_def)
  from b monitored_failure [where client = "circuitBreakerClient (recorded vantigeClient)"
      and params = params and s = "(b, (seen, s))" and w = w and e = e
      and s' = "(onFailure e b w', (seen @ new, s'))" and w' = w' and this = m]
  obtain m' w'' where
    m: "monitoredClient (recorded vantigeClient) params (m, b, (seen, s)) w
      = (Inl e, (m', onFailure e b w', (seen @ new, s')), w'')"
    and rq: "requests m' = requests m + 1"
    by (auto simp: monitoredClient_def)
  have "cachedClient J (recorded vantigeClient) params (c, m, b, (seen, s)) w
      = (Inl e, (c, m', onFailure e b w', (seen @ new, s')), w'')"
    using miss m by (simp add: cachedClient_def)
  with n rq onFailure_closed [OF closed, of e w'] show ?thesis by auto
qed

text \<open>
  C1, as the code has it. The cache is the outermost layer and the retry wrapper the
  innermost: \<open>cachedClient\<close> is Cache around Monitoring around CircuitBreaker around Retry
  around the remote client. The resilient client sends a search through
  \<open>monitoredClient\<close> first, without the cache, and the cache is not touched when that
  succeeds; when it fails, the search goes through \<open>cachedClient\<close>. One query through
  \<open>cachedClient\<close> that misses the cache, with a remote client that always throws a
  retryable error, invokes the remote client four times, counts one failure in the
  breaker and one request in the monitor, and leaves the cache as it was.
\<close>

theorem wiring_cache_outermost:
  "cachedClient J vantigeClient
     = Cached_query J
         (Monitored_query
            (CircuitBreaker_query (Retryable_query builtinRetryOptions vantigeClient noOptions)))
   \<and> (monitoredClient vantigeClient
          \<lparr>corpusId = corpus, query = str, limit = Some 10, generateAnswer = Some True\<rparr> t w
        = (Inr resp, t', w')
      \<longrightarrow> resilientClient J vantigeClient corpus str (c, t) w
          = (Inr (SearchResult ''primary'' (answer resp) (results resp) ''high''), (c, t'), w'))
   \<and> (monitoredClient vantigeClient
          \<lparr>corpusId = corpus, query = str, limit = Some 10, generateAnswer = Some True\<rparr> t w
        = (Inl e, t', w')
      \<and> cachedClient J vantigeClient
          \<lparr>corpusId = corpus, query = str, limit = Some 5, generateAnswer = Some False\<rparr> (c, t') w'
        = (Inr resp, g'', w'')
      \<longrightarrow> resilientClient J vantigeClient corpus str (c, t) w
          = (Inr (SearchResult ''cached'' (Some ''Showing cached results'') (results resp)
               ''medium''), g'', w''))
   \<and> ((\<forall>t v. \<exists>e t' v'. vantigeClient params t v = (Inl e, t', v')
          \<and> isRetryable e (retryableErrors builtinRetryOptions))
        \<and> Map_get c (getCacheKey J params) = None \<and> state b = CLOSED
      \<longrightarrow> (\<exists>e m' b' new s' w'.
            cachedClient J (recorded vantigeClient) params (c, m, b, (seen, s)) w
              = (Inl e, (c, m', b', (seen @ new, s')), w')
            \<and> length new = 4 \<and> requests m' = requests m + 1
            \<and> failures b' = failures b + 1))
   \<and> (Map_get c (getCacheKey J params) = Some cached \<and> isCacheValid cached w
      \<longrightarrow> cachedClient J vantigeClient params (c, t) w
          = (Inr (response cached),
             (Map_set c (getCacheKey J params) (cached\<lparr>hits := hits cached + 1\<rparr>), t), w))"
proof (intro conjI impI)
  show "cachedClient J vantigeClient
     = Cached_query J
         (Monitored_query
            (CircuitBreaker_query (Retryable_query builtinRetryOptions vantigeClient noOptions)))"
    by (simp add: cachedClient_def monitoredClient_def circuitBreakerClient_def
        retryableClient_def new_RetryableVantigeClient_def)
next
  assume "monitoredClient vantigeClient
          \<lparr>corpusId = corpus, query = str, limit = Some 10, generateAnswer = Some True\<rparr> t w
        = (Inr resp, t', w')"
  then show "resilientClient J vantigeClient corpus str (c, t) w
          = (Inr (SearchResult ''primary'' (answer resp) (results resp) ''high''), (c, t'), w')"
    by (simp add: resilientClient_def searchWithFallback_def tryPrimarySearch_def
        below_cache_def)
next
  assume "monitoredClient vantigeClient
          \<lparr>corpusId = corpus, query = str, limit = Some 10, generateAnswer = Some True\<rparr> t w
        = (Inl e, t', w')
      \<and> cachedClient J vantigeClient
          \<lparr>corpusId = corpus, query = str, limit = Some 5, generateAnswer = Some False\<rparr> (c, t') w'
        = (Inr resp, g'', w'')"
  then show "resilientClient J vantigeClient corpus str (c, t) w
          = (Inr (SearchResult ''cached'' (Some ''Showing cached results'') (results resp)
               ''medium''), g'', w'')"
    by (simp add: resilientClient_def searchWithFallback_def tryPrimarySearch_def
        tryCachedSearch_def below_cache_def)
next
  assume "(\<forall>t v. \<exists>e t' v'. vantigeClient params t v = (Inl e, t', v')
          \<and> isRetryable e (retryableErrors builtinRetryOptions))
        \<and> Map_get c (getCacheKey J params) = None \<and> state b = CLOSED"
  then show "\<exists>e m' b' new s' w'.
            cachedClient J (recorded vantigeClient) params (c, m, b, (seen, s)) w
              = (Inl e, (c, m', b', (seen @ new, s')), w')
            \<and> length new = 4 \<and> requests m' = requests m + 1
            \<and> failures b' = failures b + 1"
    using wired_failure_path [of vantigeClient params c J b m seen s w] by blast
next
  assume "Map_get c (getCacheKey J params) = Some cached \<and> isCacheValid cached w"
  then show "cachedClient J vantigeClient params (c, t) w
          = (Inr (response cached),
             (Map_set c (getCacheKey J params) (cached\<lparr>hits := hits cached + 1\<rparr>), t), w)"
    by (simp add: cachedClient_def)
qed

theorem wiring_cache_outermost_witness:
  "resilientClient stringify0 (answering response0) ''docs'' ''z'' (wired ()) world0
     = (Inr (SearchResult ''primary'' None [''r1''] ''high''),
        (new_CachedVantigeClient, (new_MonitoredVantigeClient 100)\<lparr>requests := 1\<rparr>,
         new_CircuitBreakerClient noBreakerOptions, ()),
        world0)
   \<and> fst (resilientClient stringify0 (failing unauthorized) ''docs'' ''z''
          ([entryZ 0], new_MonitoredVantigeClient 100,
           new_CircuitBreakerClient noBreakerOptions, ()) world0)
     = Inr (SearchResult ''cached'' (Some ''Showing cached results'') [''r1''] ''medium'')
   \<and> (\<exists>e m' b' new s' w'.
        cachedClient stringify0 (recorded (failing unavailable)) params0 (wired ([], ())) world0
          = (Inl e, (new_CachedVantigeClient, m', b', (new, s')), w')
        \<and> length new = 4 \<and> requests m' = 1 \<and> failures b' = 1)
   \<and> cachedClient stringify0 (failing unavailable) paramsZ
       ([entryZ 0], new_MonitoredVantigeClient 100, new_CircuitBreakerClient noBreakerOptions, ())
       world0
     = (Inr response0,
        ([(''{docs,z}'', \<lparr>response = response0, timestamp = 0, hits = 1\<rparr>)],
         new_MonitoredVantigeClient 100, new_CircuitBreakerClient noBreakerOptions, ()),
        world0)"
proof (intro conjI)
  let ?p10 = "\<lparr>corpusId = ''docs'', query = ''z'', limit = Some 10, generateAnswer = Some True\<rparr>"
  let ?p5 = "\<lparr>corpusId = ''docs'', query = ''z'', limit = Some 5, generateAnswer = Some False\<rparr>"
  have ok: "monitoredClient (answering response0) ?p10
      (new_MonitoredVantigeClient 100, new_CircuitBreakerClient noBreakerOptions, ()) world0
    = (Inr response0,
       ((new_MonitoredVantigeClient 100)\<lparr>requests := 1\<rparr>,
        new_CircuitBreakerClient noBreakerOptions, ()),
       world0)"
    by (simp add: monitoredClient_def circuitBreakerClient_def
        retry_success answering_def new_MonitoredVantigeClient_def new_CircuitBreakerClient_def
        noBreakerOptions_def onSuccess_def updateErrorRate_def Let_def)
  show "resilientClient stringify0 (answering response0) ''docs'' ''z'' (wired ()) world0
     = (Inr (SearchResult ''primary'' None [''r1''] ''high''),
        (new_CachedVantigeClient, (new_MonitoredVantigeClient 100)\<lparr>requests := 1\<rparr>,
         new_CircuitBreakerClient noBreakerOptions, ()),
        world0)"
    using wiring_cache_outermost [where vantigeClient = "answering response0" and J = stringify0
        and corpus = "''docs''" and str = "''z''" and c = new_CachedVantigeClient
        and t = "(new_MonitoredVantigeClient 100, new_CircuitBreakerClient noBreakerOptions, ())"
        and w = world0 and resp = response0
        and t' = "((new_MonitoredVantigeClient 100)\<lparr>requests := 1\<rparr>,
          new_CircuitBreakerClient noBreakerOptions, ())"
        and w' = world0] ok
    by (simp add: wired_def response0_def del: Cached_query.simps Monitored_query.simps
        CircuitBreaker_query.simps)
next
  let ?p10 = "\<lparr>corpusId = ''docs'', query = ''z'', limit = Some 10, generateAnswer = Some True\<rparr>"
  let ?p5 = "\<lparr>corpusId = ''docs'', query = ''z'', limit = Some 5, generateAnswer = Some False\<rparr>"
  let ?t = "(new_MonitoredVantigeClient 100, new_CircuitBreakerClient noBreakerOptions, ())"
  let ?m = "monitoredClient (failing unauthorized) ?p10 ?t world0"
  have f1: "fst ?m = Inl unauthorized"
    by (simp add: monitoredClient_def circuitBreakerClient_def retryableClient_def
        Retryable_query_def new_RetryableVantigeClient_def builtinRetryOptions_def
        query_loop.simps [of _ _ _ 0] attemptAllowed_def failing_def unauthorized_def
        new_MonitoredVantigeClient_def new_CircuitBreakerClient_def noBreakerOptions_def Let_def)
  then have m: "?m = (Inl unauthorized, fst (snd ?m), snd (snd ?m))"
    by (metis prod.collapse)
  let ?c = "cachedClient stringify0 (failing unauthorized) ?p5 ([entryZ 0], fst (snd ?m))
      (snd (snd ?m))"
  have valid: "isCacheValid (snd (entryZ 0)) (snd (snd ?m))"
    by (simp add: monitoredClient_def circuitBreakerClient_def retryableClient_def
        Retryable_query_def new_RetryableVantigeClient_def builtinRetryOptions_def
        query_loop.simps [of _ _ _ 0] attemptAllowed_def failing_def unauthorized_def
        new_MonitoredVantigeClient_def new_CircuitBreakerClient_def noBreakerOptions_def Let_def
        isCacheValid_def entryZ_def notifyErrorCallbacks_def recordError_def
        updateErrorRate_def cacheTimeout_def world0_def)
  have f2: "fst ?c = Inr response0"
    using valid
    by (simp add: cachedClient_def getCacheKey_def stringify0_def toLowerCase_def trim_def
        isSpace_def Map_get_def entryZ_def Let_def)
  then have c: "?c = (Inr response0, fst (snd ?c), snd (snd ?c))"
    by (metis prod.collapse)
  show "fst (resilientClient stringify0 (failing unauthorized) ''docs'' ''z''
          ([entryZ 0], new_MonitoredVantigeClient 100,
           new_CircuitBreakerClient noBreakerOptions, ()) world0)
     = Inr (SearchResult ''cached'' (Some ''Showing cached results'') [''r1''] ''medium'')"
    using wiring_cache_outermost [where vantigeClient = "failing unauthorized" and J = stringify0
        and corpus = "''docs''" and str = "''z''" and c = "[entryZ 0]" and t = ?t
        and w = world0 and e = unauthorized and t' = "fst (snd ?m)" and w' = "snd (snd ?m)"
        and resp = response0 and g'' = "fst (snd ?c)" and w'' = "snd (snd ?c)"] m c
    by (simp add: response0_def del: Cached_query.simps Monitored_query.simps
        CircuitBreaker_query.simps)
next
  show "\<exists>e m' b' new s' w'.
        cachedClient stringify0 (recorded (failing unavailable)) params0 (wired ([], ())) world0
          = (Inl e, (new_CachedVantigeClient, m', b', (new, s')), w')
        \<and> length new = 4 \<and> requests m' = 1 \<and> failures b' = 1"
    using wiring_cache_outermost [where vantigeClient = "failing unavailable" and J = stringify0
        and params = params0 and c = new_CachedVantigeClient
        and m = "new_MonitoredVantigeClient 100"
        and b = "new_CircuitBreakerClient noBreakerOptions" and seen = "[]" and s = "()"
        and w = world0]
    by (simp add: wired_def failing_def unavailable_def builtinRetryOptions_def
        new_CachedVantigeClient_def Map_get_def new_MonitoredVantigeClient_def
        new_CircuitBreakerClient_def del: Cached_query.simps Monitored_query.simps
        CircuitBreaker_query.simps)
next
  show "cachedClient stringify0 (failing unavailable) paramsZ
       ([entryZ 0], new_MonitoredVantigeClient 100, new_CircuitBreakerClient noBreakerOptions, ())
       world0
     = (Inr response0,
        ([(''{docs,z}'', \<lparr>response = response0, timestamp = 0, hits = 1\<rparr>)],
         new_MonitoredVantigeClient 100, new_CircuitBreakerClient noBreakerOptions, ()),
        world0)"
    using wiring_cache_outermost [where vantigeClient = "failing unavailable" and J = stringify0
        and params = paramsZ and c = "[entryZ 0]" and cached = "snd (entryZ 0)" and w = world0
        and t = "(new_MonitoredVantigeClient 100, new_CircuitBreakerClient noBreakerOptions, ())",
        THEN conjunct2, THEN conjunct2, THEN conjunct2, THEN conjunct2]
    by (simp add: keyZ entryZ_def Map_get_def Map_set_def isCacheValid_def cacheTimeout_def
        world0_def)
qed

lemma monitored_success_path:
  assumes "state b = CLOSED" and "vantigeClient params s w = (Inr r, s', w')"
  shows "monitoredClient vantigeClient params (m, b, s) w
    = (Inr r, (updateErrorRate (m\<lparr>requests := requests m + 1\<rparr>), b\<lparr>failures := 0\<rparr>, s'), w')"
  using assms
  by (simp add: monitoredClient_def circuitBreakerClient_def retry_success
      onSuccess_def Let_def)

text \<open>
  C1 as stated fails. Two identical searches through the resilient client invoke an
  always-answering remote client twice and leave the cache empty; through the composition
  Monitoring, CircuitBreaker, Retry, Cache of the claim, the second identical query is
  answered by the cache and the remote client is invoked once.
\<close>

theorem composition_order_counterexample:
  "invocations (fst (snd (search_twice stringify0 (recorded (answering response0)) ''docs'' ''z''
      (wired ([], ())) world0))) = 2
   \<and> fst (fst (snd (search_twice stringify0 (recorded (answering response0)) ''docs'' ''z''
      (wired ([], ())) world0))) = []
   \<and> invocations (fst (snd (run (spec_resilientClient stringify0 (recorded (answering response0)))
      [(0, primaryParams), (0, primaryParams)] (spec_wired ([], ())) world0))) = 1"
proof -
  let ?base = "recorded (answering response0) :: (outcome list \<times> unit) client"
  have b: "\<And>p seen w. ?base p (seen, ()) w = (Inr response0, (seen @ [Inr response0], ()), w)"
    by (simp add: recorded_def answering_def)
  have closed: "state (new_CircuitBreakerClient noBreakerOptions) = CLOSED"
    "state ((new_CircuitBreakerClient noBreakerOptions)\<lparr>failures := 0\<rparr>) = CLOSED"
    by (simp_all add: new_CircuitBreakerClient_def)
  have p: "\<And>q m bk seen w. state bk = CLOSED \<Longrightarrow>
      monitoredClient ?base q (m, bk, (seen, ())) w
        = (Inr response0,
           (updateErrorRate (m\<lparr>requests := requests m + 1\<rparr>), bk\<lparr>failures := 0\<rparr>,
            (seen @ [Inr response0], ())),
           w)"
    by (rule monitored_success_path) (simp_all add: b)
  have code: "\<exists>rs m2. search_twice stringify0 ?base ''docs'' ''z'' (wired ([], ())) world0
    = (rs,
       (new_CachedVantigeClient, m2,
        (new_CircuitBreakerClient noBreakerOptions)\<lparr>failures := 0\<rparr>,
        ([Inr response0, Inr response0], ())),
       world0)"
    by (simp add: search_twice_def resilientClient_def searchWithFallback_def
        tryPrimarySearch_def below_cache_def wired_def
        p [OF closed(1)] p [OF closed(2)])
  have spec: "invocations (fst (snd (run (spec_resilientClient stringify0 ?base)
      [(0, primaryParams), (0, primaryParams)] (spec_wired ([], ())) world0))) = 1"
    by (simp add: spec_resilientClient_def spec_wired_def invocations_def primaryParams_def
        new_RetryableVantigeClient_def Retryable_query_def query_loop.simps [of _ _ _ 0] attemptAllowed_def
        builtinRetryOptions_def b getCacheKey_def stringify0_def toLowerCase_def trim_def
        isSpace_def Map_get_def Map_set_def updateCache_def maxCacheSize_def
        new_CachedVantigeClient_def new_CircuitBreakerClient_def noBreakerOptions_def
        new_MonitoredVantigeClient_def onSuccess_def isCacheValid_def cacheTimeout_def
        tick_def world0_def Let_def)
  from code obtain rs m2 where
    c: "search_twice stringify0 ?base ''docs'' ''z'' (wired ([], ())) world0
      = (rs,
         (new_CachedVantigeClient, m2,
          (new_CircuitBreakerClient noBreakerOptions)\<lparr>failures := 0\<rparr>,
          ([Inr response0, Inr response0], ())),
         world0)"
    by blast
  show ?thesis
    using spec by (simp add: c invocations_def new_CachedVantigeClient_def)
qed

end
